theory Spec2Isabelle
  imports Main "HOL-Library.Char_ord" "HOL-Library.List_Lexorder" "HOL-Library.Finite_Map"
begin

section \<open>Strings and paths\<close>

text \<open>
  A Python \<open>str\<close> is modelled as a \<open>string\<close> of ASCII text. The case conversions
  and the whitespace test are those of Python on the ASCII range, which is where every
  literal the program compares against lives (the extension tables, the format names,
  the tool's flags). Python's methods are Unicode-aware: on text outside ASCII they
  also strip white space such as U+00A0 and change the case of other letters, which
  these definitions leave alone; such text is outside what the model covers.
\<close>

type_synonym path = string
type_synonym bytes = string

definition lower_char :: "char \<Rightarrow> char" where
  "lower_char c =
     (let n = (of_char c :: nat) in if 65 \<le> n \<and> n \<le> 90 then char_of (n + 32) else c)"

definition upper_char :: "char \<Rightarrow> char" where
  "upper_char c =
     (let n = (of_char c :: nat) in if 97 \<le> n \<and> n \<le> 122 then char_of (n - 32) else c)"

definition lower :: "string \<Rightarrow> string" where
  "lower s = map lower_char s"

definition upper :: "string \<Rightarrow> string" where
  "upper s = map upper_char s"

definition is_space :: "char \<Rightarrow> bool" where
  "is_space c = ((of_char c :: nat) \<in> {9, 10, 11, 12, 13, 28, 29, 30, 31, 32})"

definition strip :: "string \<Rightarrow> string" where
  "strip s = rev (dropWhile is_space (rev (dropWhile is_space s)))"

text \<open>\<open>str(n)\<close> for a non-negative integer, and for any integer.\<close>

definition digit_char :: "nat \<Rightarrow> char" where
  "digit_char d = char_of (48 + d)"

fun str_nat :: "nat \<Rightarrow> string" where
  "str_nat n = (if n < 10 then [digit_char n] else str_nat (n div 10) @ [digit_char (n mod 10)])"

declare str_nat.simps [simp del]

definition str_int :: "int \<Rightarrow> string" where
  "str_int i = (if i < 0 then CHR ''-'' # str_nat (nat (- i)) else str_nat (nat i))"

text \<open>
  The path separators of the platform: \<open>os.sep\<close>, and \<open>os.sep\<close> with \<open>os.altsep\<close>.
  \<open>nt\<close> is \<open>os.name == 'nt'\<close>.
\<close>

definition backslash :: char where
  "backslash = CHR 0x5C"

definition sep :: "bool \<Rightarrow> char" where
  "sep nt = (if nt then backslash else CHR ''/'')"

definition seps :: "bool \<Rightarrow> char list" where
  "seps nt = (if nt then [backslash, CHR ''/''] else [CHR ''/''])"

text \<open>\<open>s.rfind(c)\<close> for a class of characters: the last index holding one, or -1.\<close>

fun rfind :: "(char \<Rightarrow> bool) \<Rightarrow> string \<Rightarrow> int" where
  "rfind P [] = - 1"
| "rfind P (c # cs) =
     (let r = rfind P cs in if 0 \<le> r then r + 1 else if P c then 0 else - 1)"

text \<open>
  \<open>os.path.splitext\<close> (\<open>genericpath._splitext\<close>): the extension starts at the last
  dot, provided that dot comes after the last separator and some character between the
  separator and the dot is not a dot (the \<open>while\<close> loop that skips leading dots).
\<close>

definition splitext :: "bool \<Rightarrow> path \<Rightarrow> string \<times> string" where
  "splitext nt p =
     (let sepIndex = rfind (\<lambda>c. c \<in> set (seps nt)) p;
          dotIndex = rfind (\<lambda>c. c = CHR ''.'') p
      in if dotIndex > sepIndex \<and>
            list_ex (\<lambda>c. c \<noteq> CHR ''.'')
              (take (nat (dotIndex - (sepIndex + 1))) (drop (nat (sepIndex + 1)) p))
         then (take (nat dotIndex) p, drop (nat dotIndex) p)
         else (p, []))"

text \<open>
  \<open>os.path.join(d, n)\<close> for a name \<open>n\<close> without drive or root. The directories the
  program joins are absolute (\<open>dirname(abspath(...))\<close>, \<open>tempfile.gettempdir()\<close>), so
  the drive-relative case of the Windows version does not arise.
\<close>

definition join :: "bool \<Rightarrow> path \<Rightarrow> string \<Rightarrow> path" where
  "join nt d n = (if d = [] \<or> last d \<in> set (seps nt) then d @ n else d @ [sep nt] @ n)"

section \<open>Format and extension\<close>

text \<open>The detected format is a string, or \<open>None\<close> when the probe gave none.\<close>

fun check_format_mismatch :: "bool \<Rightarrow> path \<Rightarrow> string option \<Rightarrow> bool" where
  "check_format_mismatch nt file_path None = False"
| "check_format_mismatch nt file_path (Some actual_format) =
     (let ext = lower (snd (splitext nt file_path)) in
      if actual_format = ''JPEG'' \<and> ext \<notin> set [''.jpg'', ''.jpeg''] then True
      else if actual_format = ''PNG'' \<and> ext \<noteq> ''.png'' then True
      else if actual_format = ''TIFF'' \<and> ext \<notin> set [''.tiff'', ''.tif''] then True
      else if actual_format = ''WEBP'' \<and> ext \<noteq> ''.webp'' then True
      else if actual_format = ''BMP'' \<and> ext \<noteq> ''.bmp'' then True
      else False)"

definition format_map :: "(string \<times> string) list" where
  "format_map =
     [(''JPEG'', ''.jpg''), (''PNG'', ''.png''), (''TIFF'', ''.tiff''),
      (''WEBP'', ''.webp''), (''BMP'', ''.bmp'')]"

fun get_correct_extension :: "string option \<Rightarrow> string" where
  "get_correct_extension None = ''.tmp''"
| "get_correct_extension (Some actual_format) =
     (case map_of format_map actual_format of Some e \<Rightarrow> e | None \<Rightarrow> ''.tmp'')"

section \<open>The world the program runs in\<close>

text \<open>
  What \<open>subprocess.run\<close> gives back when it returns, and the exceptions the program
  can meet. An exception carries the text \<open>str(e)\<close> prints; only the timeout of
  \<open>subprocess.run\<close> has a handler of its own.
\<close>

record completed =
  returncode :: int
  stdout :: string
  stderr :: string

datatype exn = TimeoutExpired string | Exception string

fun str_exn :: "exn \<Rightarrow> string" where
  "str_exn (TimeoutExpired s) = s"
| "str_exn (Exception s) = s"

text \<open>
  The third component of what \<open>get_file_info\<close> returns: one of its two fixed
  messages, or the text of the exception it caught.
\<close>

datatype probe_error = Unreadable | Unsupported string | Raised string

text \<open>Python's truth value of the error slot, as \<open>if error:\<close> reads it.\<close>

fun truthy :: "probe_error option \<Rightarrow> bool" where
  "truthy None = False"
| "truthy (Some Unreadable) = True"
| "truthy (Some (Unsupported t)) = True"
| "truthy (Some (Raised s)) = (s \<noteq> [])"

text \<open>
  A line typed at a prompt, by the branch the program takes on it after
  \<open>.strip().upper()\<close>: one of the accepted spellings of yes, of no, or anything else.
\<close>

datatype reply = Yes | No | Other

text \<open>The lines the program prints, by what they report.\<close>

datatype msg =
    Banner
  | Guide
  | ToolVersion string
  | CannotReadDir string
  | NoImages
  | Found nat
  | Checking path
  | ProbeFailed path "probe_error option"
  | Inspected path "string option" bool bool
  | NoValid
  | FormatIssues "(path \<times> string option) list"
  | NoExif nat
  | ToProcess "path list"
  | Cancelled
  | Retry
  | Start
  | Processing path
  | BackupAt path
  | UsingTemp
  | Success int
  | Failed string
  | FailedNoText
  | TimedOut
  | ErrorMsg string
  | Summary nat nat int
  | Crashed string

text \<open>Every action on the outside world is recorded, in order.\<close>

datatype event =
    Run "string list" nat
  | Getsize path
  | Copy2 path path
  | Remove path
  | Chdir path
  | Input
  | Print msg

text \<open>
  The world: the files by the name the program gives them, the current directory of the
  process, the record of the actions, and the lines still to be typed.
\<close>

record world =
  files :: "(path, bytes) fmap"
  cwd :: path
  trace :: "event list"
  stdin :: "reply list"

text \<open>
  The environment: the platform, the two directories, the process id, Python's string
  hash (seeded per process), and three oracles. \<open>tool\<close> is the external program: what
  \<open>subprocess.run\<close> with this argument vector and timeout returns or raises in this
  world, and the files it leaves. \<open>fault\<close> lets any file-system call fail in any world
  (permissions, locks, a full disk). \<open>listdir\<close> is the listing of a directory in a
  world, as \<open>os.scandir\<close> gives it to \<open>glob\<close>.
\<close>

record env =
  os_nt :: bool
  exe_directory :: path
  tempdir :: path
  pid :: nat
  hash :: "string \<Rightarrow> int"
  tool :: "string list \<Rightarrow> nat \<Rightarrow> world \<Rightarrow> (exn + completed) \<times> (path, bytes) fmap"
  fault :: "event \<Rightarrow> world \<Rightarrow> exn option"
  listdir :: "path \<Rightarrow> world \<Rightarrow> string list"

text \<open>A computation returns a value or raises, and leaves a world.\<close>

type_synonym 'a io = "world \<Rightarrow> (exn + 'a) \<times> world"

definition io_return :: "'a \<Rightarrow> 'a io" where
  "io_return a w = (Inr a, w)"

definition io_bind :: "'a io \<Rightarrow> ('a \<Rightarrow> 'b io) \<Rightarrow> 'b io" where
  "io_bind m k w = (case m w of (Inl e, w1) \<Rightarrow> (Inl e, w1) | (Inr a, w1) \<Rightarrow> k a w1)"

definition log :: "event \<Rightarrow> world \<Rightarrow> world" where
  "log e w = w\<lparr>trace := trace w @ [e]\<rparr>"

definition print :: "msg \<Rightarrow> unit io" where
  "print m w = (Inr (), log (Print m) w)"

definition input_line :: "reply io" where
  "input_line w =
     (case stdin w of
        [] \<Rightarrow> (Inl (Exception ''EOF when reading a line''), log Input w)
      | r # rs \<Rightarrow> (Inr r, log Input (w\<lparr>stdin := rs\<rparr>)))"

definition exists :: "world \<Rightarrow> path \<Rightarrow> bool" where
  "exists w p = (fmlookup (files w) p \<noteq> None)"

definition getsize :: "env \<Rightarrow> path \<Rightarrow> int io" where
  "getsize E p w =
     (let w1 = log (Getsize p) w in
      case fault E (Getsize p) w of
        Some e \<Rightarrow> (Inl e, w1)
      | None \<Rightarrow>
          (case fmlookup (files w) p of
             None \<Rightarrow> (Inl (Exception ''FileNotFoundError''), w1)
           | Some b \<Rightarrow> (Inr (int (length b)), w1)))"

definition copy2 :: "env \<Rightarrow> path \<Rightarrow> path \<Rightarrow> unit io" where
  "copy2 E src dst w =
     (let w1 = log (Copy2 src dst) w in
      case fault E (Copy2 src dst) w of
        Some e \<Rightarrow> (Inl e, w1)
      | None \<Rightarrow>
          (case fmlookup (files w) src of
             None \<Rightarrow> (Inl (Exception ''FileNotFoundError''), w1)
           | Some b \<Rightarrow>
               if src = dst then (Inl (Exception ''SameFileError''), w1)
               else (Inr (), w1\<lparr>files := fmupd dst b (files w)\<rparr>)))"

definition remove :: "env \<Rightarrow> path \<Rightarrow> unit io" where
  "remove E p w =
     (let w1 = log (Remove p) w in
      case fault E (Remove p) w of
        Some e \<Rightarrow> (Inl e, w1)
      | None \<Rightarrow>
          (case fmlookup (files w) p of
             None \<Rightarrow> (Inl (Exception ''FileNotFoundError''), w1)
           | Some b \<Rightarrow> (Inr (), w1\<lparr>files := fmdrop p (files w)\<rparr>)))"

definition chdir :: "env \<Rightarrow> path \<Rightarrow> unit io" where
  "chdir E d w =
     (let w1 = log (Chdir d) w in
      case fault E (Chdir d) w of
        Some e \<Rightarrow> (Inl e, w1)
      | None \<Rightarrow> (Inr (), w1\<lparr>cwd := d\<rparr>))"

definition subprocess_run :: "env \<Rightarrow> string list \<Rightarrow> nat \<Rightarrow> completed io" where
  "subprocess_run E argv timeout w =
     (case tool E argv timeout w of
        (r, fs) \<Rightarrow> (r, log (Run argv timeout) (w\<lparr>files := fs\<rparr>)))"

section \<open>The tool locator\<close>

definition possible_paths :: "env \<Rightarrow> path list" where
  "possible_paths E =
     [join (os_nt E) (exe_directory E) ''exiftool.exe'',
      join (os_nt E) (exe_directory E) ''exiftool(-k).exe'',
      ''exiftool.exe'']"

text \<open>
  The \<open>for\<close> loop of \<open>find_exiftool\<close> over the candidates left. \<open>Some (path, version)\<close>
  is the return value \<open>True\<close> with the two fields of the object set; \<open>None\<close> is \<open>False\<close>.
\<close>

fun try_paths :: "env \<Rightarrow> path list \<Rightarrow> world \<Rightarrow> (path \<times> string) option \<times> world" where
  "try_paths E [] w = (None, w)"
| "try_paths E (p # ps) w =
     (case subprocess_run E [p, ''-ver''] 5 w of
        (Inr result, w1) \<Rightarrow>
          if returncode result = 0 then (Some (p, strip (stdout result)), w1)
          else try_paths E ps w1
      | (Inl e, w1) \<Rightarrow> try_paths E ps w1)"

definition find_exiftool :: "env \<Rightarrow> world \<Rightarrow> (path \<times> string) option \<times> world" where
  "find_exiftool E w = try_paths E (possible_paths E) w"

section \<open>The inspector\<close>

definition supported_types :: "string list" where
  "supported_types = [''JPEG'', ''PNG'', ''TIFF'', ''WEBP'', ''BMP'']"

definition filetype_query :: "path \<Rightarrow> path \<Rightarrow> string list" where
  "filetype_query exiftool_path file_path =
     [exiftool_path, ''-s'', ''-s'', ''-s'', ''-FileType'', file_path]"

definition exif_query :: "path \<Rightarrow> path \<Rightarrow> string list" where
  "exif_query exiftool_path file_path =
     [exiftool_path, ''-s'', ''-s'', ''-s'', ''-EXIF:all'', file_path]"

definition get_file_info ::
  "env \<Rightarrow> path \<Rightarrow> path \<Rightarrow> world \<Rightarrow> (string option \<times> bool \<times> probe_error option) \<times> world" where
  "get_file_info E exiftool_path file_path w =
     (case subprocess_run E (filetype_query exiftool_path file_path) 10 w of
        (Inl e, w1) \<Rightarrow> ((None, False, Some (Raised (str_exn e))), w1)
      | (Inr result, w1) \<Rightarrow>
          if returncode result \<noteq> 0 then ((None, False, Some Unreadable), w1)
          else
            (let file_type = upper (strip (stdout result)) in
             if file_type \<notin> set supported_types
             then ((Some file_type, False, Some (Unsupported file_type)), w1)
             else
               (case subprocess_run E (exif_query exiftool_path file_path) 10 w1 of
                  (Inl e, w2) \<Rightarrow> ((None, False, Some (Raised (str_exn e))), w2)
                | (Inr result2, w2) \<Rightarrow>
                    ((Some file_type, length (strip (stdout result2)) > 0, None), w2))))"

section \<open>The stripper\<close>

text \<open>The two shapes of a backup name, and the name of the temporary working copy.\<close>

definition backup_name :: "string \<Rightarrow> string \<Rightarrow> path" where
  "backup_name name ext = name @ ''_backup'' @ ext"

definition backup_name_k :: "string \<Rightarrow> string \<Rightarrow> nat \<Rightarrow> path" where
  "backup_name_k name ext counter = name @ ''_backup_'' @ str_nat counter @ ext"

definition temp_name :: "env \<Rightarrow> path \<Rightarrow> string option \<Rightarrow> string" where
  "temp_name E file_path actual_format =
     ''exif_temp_'' @ str_nat (pid E) @ ''_'' @ str_int (hash E file_path mod 10000)
       @ get_correct_extension actual_format"

definition temp_path :: "env \<Rightarrow> path \<Rightarrow> string option \<Rightarrow> path" where
  "temp_path E file_path actual_format =
     join (os_nt E) (tempdir E) (temp_name E file_path actual_format)"

definition strip_cmd :: "path \<Rightarrow> path \<Rightarrow> string list" where
  "strip_cmd exiftool_path working_file =
     [exiftool_path, ''-overwrite_original'', ''-all='', ''-TagsFromFile'', ''@'',
      ''-orientation'', working_file]"

text \<open>
  Decimal rendering is injective; the backup loop below terminates because of it.
\<close>

lemma of_char_digit: "d < 10 \<Longrightarrow> (of_char (digit_char d) :: nat) = 48 + d"
  by (simp add: digit_char_def)

lemma digit_char_inj: "a < 10 \<Longrightarrow> b < 10 \<Longrightarrow> digit_char a = digit_char b \<Longrightarrow> a = b"
  by (simp add: digit_char_def)

lemma str_nat_small: "n < 10 \<Longrightarrow> str_nat n = [digit_char n]"
  by (subst str_nat.simps) simp

lemma str_nat_big: "\<not> n < 10 \<Longrightarrow> str_nat n = str_nat (n div 10) @ [digit_char (n mod 10)]"
  by (subst str_nat.simps) simp

lemma str_nat_not_Nil: "str_nat n \<noteq> []"
  by (subst str_nat.simps) simp

lemma str_nat_length_ge: "10 \<le> n \<Longrightarrow> 2 \<le> length (str_nat n)"
  using str_nat_not_Nil [of "n div 10"]
  by (subst str_nat.simps) (simp add: Suc_le_eq)

lemma str_nat_inj: "str_nat m = str_nat n \<Longrightarrow> m = n"
proof (induction m arbitrary: n rule: str_nat.induct)
  case (1 m)
  show ?case
  proof (cases "m < 10")
    case True
    then have lm: "str_nat m = [digit_char m]" by (rule str_nat_small)
    show ?thesis
    proof (cases "n < 10")
      case True
      then have "str_nat n = [digit_char n]" by (rule str_nat_small)
      with lm "1.prems" \<open>m < 10\<close> True show ?thesis by (simp add: digit_char_inj)
    next
      case False
      then have "2 \<le> length (str_nat n)" by (simp add: str_nat_length_ge)
      with lm "1.prems" show ?thesis by simp
    qed
  next
    case False
    then have lm: "str_nat m = str_nat (m div 10) @ [digit_char (m mod 10)]"
      by (rule str_nat_big)
    show ?thesis
    proof (cases "n < 10")
      case True
      then have "str_nat n = [digit_char n]" by (rule str_nat_small)
      moreover from False have "2 \<le> length (str_nat m)" by (simp add: str_nat_length_ge)
      ultimately show ?thesis using "1.prems" by simp
    next
      case nf: False
      then have ln: "str_nat n = str_nat (n div 10) @ [digit_char (n mod 10)]"
        by (rule str_nat_big)
      from lm ln "1.prems" have a: "str_nat (m div 10) = str_nat (n div 10)"
        and b: "digit_char (m mod 10) = digit_char (n mod 10)" by simp_all
      from "1.IH" [OF False a] have "m div 10 = n div 10" .
      moreover from b have "m mod 10 = n mod 10" by (simp add: digit_char_inj)
      ultimately show ?thesis by (metis div_mult_mod_eq)
    qed
  qed
qed

lemma backup_name_k_inj: "backup_name_k name ext j = backup_name_k name ext k \<Longrightarrow> j = k"
  by (simp add: backup_name_k_def str_nat_inj)

lemma finite_taken_backups:
  "finite {k. c \<le> k \<and> exists w (backup_name_k name ext k)}"
proof -
  have "inj (backup_name_k name ext)"
    by (rule injI) (rule backup_name_k_inj)
  then have "finite (backup_name_k name ext -` fmdom' (files w))"
    by (intro finite_vimageI) simp_all
  moreover have "{k. c \<le> k \<and> exists w (backup_name_k name ext k)}
      \<subseteq> backup_name_k name ext -` fmdom' (files w)"
    by (auto simp: exists_def fmlookup_dom'_iff)
  ultimately show ?thesis by (rule rev_finite_subset)
qed

text \<open>
  The \<open>while os.path.exists(backup_path)\<close> loop, entered with \<open>counter\<close> and the
  current \<open>backup_path\<close>. A world holds finitely many files, so it ends.
\<close>

function find_backup :: "world \<Rightarrow> string \<Rightarrow> string \<Rightarrow> nat \<Rightarrow> path \<Rightarrow> path" where
  "find_backup w name ext counter backup_path =
     (if exists w backup_path
      then find_backup w name ext (counter + 1) (backup_name_k name ext counter)
      else backup_path)"
  by pat_completeness auto
termination
proof (relation "measure (\<lambda>(w, name, ext, counter, backup_path).
    (if exists w backup_path then 1 else 0)
      + card {k. counter \<le> k \<and> exists w (backup_name_k name ext k)})")
  show "wf (measure (\<lambda>(w, name, ext, counter, backup_path).
    (if exists w backup_path then 1 else 0)
      + card {k. counter \<le> k \<and> exists w (backup_name_k name ext k)}))"
    by simp
next
  fix w :: world and name ext :: string and counter :: nat and backup_path :: path
  assume ex: "exists w backup_path"
  let ?S = "\<lambda>c. {k. c \<le> k \<and> exists w (backup_name_k name ext k)}"
  have split: "?S counter =
      (if exists w (backup_name_k name ext counter) then insert counter (?S (counter + 1))
       else ?S (counter + 1))"
    by (auto simp: Suc_le_eq le_less)
  have fin: "finite (?S (counter + 1))" by (rule finite_taken_backups)
  have notin: "counter \<notin> ?S (counter + 1)" by simp
  have "(if exists w (backup_name_k name ext counter) then 1 else 0) + card (?S (counter + 1))
      = card (?S counter)"
    using fin notin by (subst split) (simp del: One_nat_def)
  with ex show "((w, name, ext, counter + 1, backup_name_k name ext counter),
      (w, name, ext, counter, backup_path)) \<in> measure (\<lambda>(w, name, ext, counter, backup_path).
    (if exists w backup_path then 1 else 0)
      + card {k. counter \<le> k \<and> exists w (backup_name_k name ext k)})"
    by simp
qed

declare find_backup.simps [simp del]

text \<open>Lines 132 to 137: the backup path the loop settles on.\<close>

definition backup_path_for :: "env \<Rightarrow> path \<Rightarrow> world \<Rightarrow> path" where
  "backup_path_for E file_path w =
     (case splitext (os_nt E) file_path of
        (name, ext) \<Rightarrow> find_backup w name ext 1 (backup_name name ext))"

text \<open>Lines 131 to 140: choose the backup path, copy, report it.\<close>

definition make_backup :: "env \<Rightarrow> path \<Rightarrow> unit io" where
  "make_backup E file_path w =
     (let backup_path = backup_path_for E file_path w in
      io_bind (copy2 E file_path backup_path) (\<lambda>_. print (BackupAt backup_path)) w)"

text \<open>\<open>try: os.remove(temp_file)\<close> with a bare \<open>except: pass\<close>.\<close>

definition remove_quiet :: "env \<Rightarrow> path \<Rightarrow> unit io" where
  "remove_quiet E p w = (case remove E p w of (r, w1) \<Rightarrow> (Inr (), w1))"

text \<open>
  \<open>if temp_file and os.path.exists(temp_file)\<close>: the temporary file when the test
  holds, \<open>None\<close> when it does not.
\<close>

definition temp_present :: "path option \<Rightarrow> world \<Rightarrow> path option" where
  "temp_present temp_file w =
     (case temp_file of
        None \<Rightarrow> None
      | Some t \<Rightarrow> if t \<noteq> [] \<and> exists w t then Some t else None)"

text \<open>Lines 142 to 156: the working file, and the temporary copy when there is one.\<close>

definition choose_working :: "env \<Rightarrow> path \<Rightarrow> string option \<Rightarrow> (path option \<times> path) io" where
  "choose_working E file_path actual_format =
     (if check_format_mismatch (os_nt E) file_path actual_format
      then
        (let temp_file = temp_path E file_path actual_format in
         io_bind (copy2 E file_path temp_file) (\<lambda>_.
         io_bind (print UsingTemp) (\<lambda>_.
         io_return (Some temp_file, temp_file))))
      else io_return (None, file_path))"

text \<open>Lines 176 to 195: what follows the tool's return.\<close>

definition after_tool ::
  "env \<Rightarrow> path \<Rightarrow> int \<Rightarrow> path option \<Rightarrow> completed \<Rightarrow> bool io" where
  "after_tool E file_path original_size temp_file result =
     (if returncode result = 0
      then
        io_bind (\<lambda>w. case temp_present temp_file w of
                       Some t \<Rightarrow> io_bind (copy2 E t file_path) (\<lambda>_. remove_quiet E t) w
                     | None \<Rightarrow> io_return () w) (\<lambda>_.
        io_bind (getsize E file_path) (\<lambda>new_size.
        io_bind (print (Success (new_size - original_size))) (\<lambda>_.
        io_return True)))
      else
        (let error_msg = strip (stderr result) in
         io_bind (if error_msg \<noteq> [] then print (Failed error_msg) else print FailedNoText) (\<lambda>_.
         io_return False)))"

text \<open>Lines 197 to 202: the cleanup at the end of the \<open>try\<close> block.\<close>

definition cleanup :: "env \<Rightarrow> path option \<Rightarrow> unit io" where
  "cleanup E temp_file w =
     (case temp_present temp_file w of
        Some t \<Rightarrow> remove_quiet E t w
      | None \<Rightarrow> io_return () w)"

text \<open>The body of the \<open>try\<close> block of \<open>remove_exif_data\<close>.\<close>

definition remove_exif_body ::
  "env \<Rightarrow> path \<Rightarrow> path \<Rightarrow> string option \<Rightarrow> bool \<Rightarrow> bool io" where
  "remove_exif_body E exiftool_path file_path actual_format create_backup =
     io_bind (getsize E file_path) (\<lambda>original_size.
     io_bind (if create_backup then make_backup E file_path else io_return ()) (\<lambda>_.
     io_bind (choose_working E file_path actual_format) (\<lambda>(temp_file, working_file).
     io_bind (subprocess_run E (strip_cmd exiftool_path working_file) 30) (\<lambda>result.
     io_bind (after_tool E file_path original_size temp_file result) (\<lambda>success.
     io_bind (cleanup E temp_file) (\<lambda>_.
     io_return success))))))"

text \<open>The two \<open>except\<close> clauses: the function returns a truth value whatever happened.\<close>

definition remove_exif_data ::
  "env \<Rightarrow> path \<Rightarrow> path \<Rightarrow> string option \<Rightarrow> bool \<Rightarrow> world \<Rightarrow> bool \<times> world" where
  "remove_exif_data E exiftool_path file_path actual_format create_backup w =
     (case remove_exif_body E exiftool_path file_path actual_format create_backup w of
        (Inr success, w1) \<Rightarrow> (success, w1)
      | (Inl (TimeoutExpired s), w1) \<Rightarrow> (False, log (Print TimedOut) w1)
      | (Inl (Exception s), w1) \<Rightarrow> (False, log (Print (ErrorMsg s)) w1))"

section \<open>The file discoverer\<close>

text \<open>
  \<open>glob.glob('*' + suffix)\<close> in the current directory: \<open>fnmatch\<close> compares under
  \<open>os.path.normcase\<close> (lower case and backslashes on Windows, the identity elsewhere),
  the star matches any run of characters, and a name that starts with a dot is hidden
  from a pattern that does not.
\<close>

definition normcase :: "bool \<Rightarrow> string \<Rightarrow> string" where
  "normcase nt s =
     (if nt then lower (map (\<lambda>c. if c = CHR ''/'' then backslash else c) s) else s)"

definition ends_with :: "string \<Rightarrow> string \<Rightarrow> bool" where
  "ends_with s suf = (length suf \<le> length s \<and> drop (length s - length suf) s = suf)"

definition ishidden :: "string \<Rightarrow> bool" where
  "ishidden n = (case n of [] \<Rightarrow> False | c # _ \<Rightarrow> c = CHR ''.'')"

definition glob_star :: "env \<Rightarrow> string \<Rightarrow> world \<Rightarrow> string list" where
  "glob_star E suffix w =
     filter (\<lambda>n. \<not> ishidden n \<and> ends_with (normcase (os_nt E) n) (normcase (os_nt E) suffix))
       (listdir E (cwd w) w)"

text \<open>The patterns of \<open>get_image_files\<close>, without their leading star.\<close>

definition extensions :: "string list" where
  "extensions = [''.jpg'', ''.jpeg'', ''.png'', ''.tiff'', ''.tif'', ''.webp'', ''.bmp'']"

definition get_image_files :: "env \<Rightarrow> path list io" where
  "get_image_files E =
     io_bind (chdir E (exe_directory E)) (\<lambda>_ w.
       (Inr (sort (remdups
          (concat (map (\<lambda>ext. glob_star E ext w @ glob_star E (upper ext) w) extensions)))), w))"

section \<open>The run\<close>

text \<open>What the inspection loop of \<open>run\<close> collects.\<close>

record info =
  ftype :: "string option"
  has_exif :: bool
  format_mismatch :: bool

record analysis =
  valid_files :: "path list"
  files_with_exif :: "path list"
  format_issues :: "(path \<times> string option) list"
  file_info :: "path \<rightharpoonup> info"

definition no_analysis :: analysis where
  "no_analysis =
     \<lparr>valid_files = [], files_with_exif = [], format_issues = [], file_info = Map.empty\<rparr>"

text \<open>Lines 289 to 317: the loop over \<open>image_files\<close>.\<close>

fun inspect_files :: "env \<Rightarrow> path \<Rightarrow> path list \<Rightarrow> analysis \<Rightarrow> world \<Rightarrow> analysis \<times> world" where
  "inspect_files E exiftool_path [] a w = (a, w)"
| "inspect_files E exiftool_path (file # rest) a w =
     (case get_file_info E exiftool_path file (log (Print (Checking file)) w) of
        ((file_type, exif, error), w1) \<Rightarrow>
          if truthy error
          then inspect_files E exiftool_path rest a (log (Print (ProbeFailed file error)) w1)
          else
            (let mismatch = check_format_mismatch (os_nt E) file file_type;
                 a1 = a\<lparr>valid_files := valid_files a @ [file],
                        file_info := (file_info a)(file \<mapsto>
                          \<lparr>ftype = file_type, has_exif = exif, format_mismatch = mismatch\<rparr>),
                        format_issues :=
                          (if mismatch then format_issues a @ [(file, file_type)]
                           else format_issues a),
                        files_with_exif :=
                          (if exif then files_with_exif a @ [file] else files_with_exif a)\<rparr>
             in inspect_files E exiftool_path rest a1
                  (log (Print (Inspected file file_type mismatch exif)) w1)))"

text \<open>
  Lines 355 to 376: a yes/no prompt, asked again after any other answer. The recursion
  is over the lines still to be read; an exhausted input raises \<open>EOFError\<close>.
\<close>

fun ask_lines :: "reply list \<Rightarrow> bool io" where
  "ask_lines [] w = (Inl (Exception ''EOF when reading a line''), log Input w)"
| "ask_lines (r # rs) w =
     (let w1 = log Input (w\<lparr>stdin := rs\<rparr>) in
      case r of
        Yes \<Rightarrow> (Inr True, w1)
      | No \<Rightarrow> (Inr False, w1)
      | Other \<Rightarrow> ask_lines rs (log (Print Retry) w1))"

definition ask :: "bool io" where
  "ask w = ask_lines (stdin w) w"

text \<open>\<open>input("...")\<close> before a \<open>return\<close>: any line will do.\<close>

definition wait_key :: "unit io" where
  "wait_key = io_bind input_line (\<lambda>_. io_return ())"

text \<open>
  Lines 387 to 397: the loop over \<open>files_with_exif\<close>, with the three counters. The two
  size measurements of the loop stand outside \<open>remove_exif_data\<close>.
\<close>

fun process_files ::
  "env \<Rightarrow> path \<Rightarrow> bool \<Rightarrow> (path \<rightharpoonup> info) \<Rightarrow> path list \<Rightarrow> nat \<times> nat \<times> int \<Rightarrow> (nat \<times> nat \<times> int) io" where
  "process_files E exiftool_path create_backup fi [] counters w = (Inr counters, w)"
| "process_files E exiftool_path create_backup fi (file # rest) (processed, failed, total_size_change) w =
     (case getsize E file (log (Print (Processing file)) w) of
        (Inl e, w1) \<Rightarrow> (Inl e, w1)
      | (Inr original_size, w1) \<Rightarrow>
          (case fi file of
             None \<Rightarrow> (Inl (Exception ''KeyError''), w1)
           | Some i \<Rightarrow>
               (case remove_exif_data E exiftool_path file (ftype i) create_backup w1 of
                  (True, w2) \<Rightarrow>
                    (case getsize E file w2 of
                       (Inl e, w3) \<Rightarrow> (Inl e, w3)
                     | (Inr new_size, w3) \<Rightarrow>
                         process_files E exiftool_path create_backup fi rest
                           (processed + 1, failed, total_size_change + (new_size - original_size)) w3)
                | (False, w2) \<Rightarrow>
                    process_files E exiftool_path create_backup fi rest
                      (processed, failed + 1, total_size_change) w2)))"

text \<open>Lines 326 to 416 of \<open>run\<close>: from the end of the inspection on.\<close>

definition process_phase :: "env \<Rightarrow> path \<Rightarrow> analysis \<Rightarrow> unit io" where
  "process_phase E exiftool_path a =
     (if valid_files a = [] then io_bind (print NoValid) (\<lambda>_. wait_key)
      else
        io_bind (if format_issues a \<noteq> [] then print (FormatIssues (format_issues a))
                 else io_return ()) (\<lambda>_.
        if files_with_exif a = []
        then io_bind (print (NoExif (length (valid_files a)))) (\<lambda>_. wait_key)
        else
          io_bind (print (ToProcess (files_with_exif a))) (\<lambda>_.
          io_bind ask (\<lambda>choice.
          if \<not> choice then io_bind (print Cancelled) (\<lambda>_. wait_key)
          else
            io_bind ask (\<lambda>create_backup.
            io_bind (print Start) (\<lambda>_.
            io_bind (process_files E exiftool_path create_backup (file_info a)
                       (files_with_exif a) (0, 0, 0)) (\<lambda>(processed, failed, total_size_change).
            io_bind (print (Summary processed failed total_size_change)) (\<lambda>_.
            wait_key))))))))"

definition run :: "env \<Rightarrow> unit io" where
  "run E w =
     (case find_exiftool E (log (Print Banner) w) of
        (None, w1) \<Rightarrow> io_bind (print Guide) (\<lambda>_. wait_key) w1
      | (Some (exiftool_path, version), w1) \<Rightarrow>
          (case get_image_files E (log (Print (ToolVersion version)) w1) of
             (Inl e, w2) \<Rightarrow> io_bind (print (CannotReadDir (str_exn e))) (\<lambda>_. wait_key) w2
           | (Inr image_files, w2) \<Rightarrow>
               if image_files = [] then io_bind (print NoImages) (\<lambda>_. wait_key) w2
               else
                 (case inspect_files E exiftool_path image_files no_analysis
                         (log (Print (Found (length image_files))) w2) of
                    (a, w3) \<Rightarrow> process_phase E exiftool_path a w3)))"

text \<open>\<open>main\<close>: whatever \<open>run\<close> raises is reported, and the program waits for a key.\<close>

definition main :: "env \<Rightarrow> unit io" where
  "main E w =
     (case run E w of
        (Inl e, w1) \<Rightarrow> io_bind (print (Crashed (str_exn e))) (\<lambda>_. wait_key) w1
      | (Inr u, w1) \<Rightarrow> (Inr u, w1))"

section \<open>Facts about paths\<close>

lemma rfind_bounds: "- 1 \<le> rfind P xs \<and> rfind P xs < int (length xs)"
  by (induction xs) (auto simp: Let_def)

lemma rfind_none: "(\<And>c. c \<in> set xs \<Longrightarrow> \<not> P c) \<Longrightarrow> rfind P xs = - 1"
  by (induction xs) (auto simp: Let_def)

lemma rfind_append:
  "rfind P (xs @ ys) = (if 0 \<le> rfind P ys then int (length xs) + rfind P ys else rfind P xs)"
  using rfind_bounds [of P ys] by (induction xs) (auto simp: Let_def)

lemma rfind_append_none:
  "(\<And>c. c \<in> set ys \<Longrightarrow> \<not> P c) \<Longrightarrow> rfind P (xs @ ys) = rfind P xs"
  by (simp add: rfind_append rfind_none)

lemma dot_not_sep: "CHR ''.'' \<notin> set (seps nt)"
  by (simp add: seps_def backslash_def)

lemma splitext_append_ext:
  assumes e: "\<And>c. c \<in> set e \<Longrightarrow> c \<noteq> CHR ''.'' \<and> c \<notin> set (seps nt)"
    and b: "list_ex (\<lambda>c. c \<noteq> CHR ''.'') (drop (nat (rfind (\<lambda>c. c \<in> set (seps nt)) b + 1)) b)"
  shows "splitext nt (b @ CHR ''.'' # e) = (b, CHR ''.'' # e)"
proof -
  let ?p = "b @ CHR ''.'' # e"
  have "rfind (\<lambda>c. c = CHR ''.'') e = - 1" using e by (intro rfind_none) simp
  then have "rfind (\<lambda>c. c = CHR ''.'') (CHR ''.'' # e) = 0" by simp
  then have dot: "rfind (\<lambda>c. c = CHR ''.'') ?p = int (length b)"
    by (simp only: rfind_append) simp
  have "rfind (\<lambda>c. c \<in> set (seps nt)) (CHR ''.'' # e) = - 1"
    using e dot_not_sep [of nt] by (intro rfind_none) auto
  then have sp: "rfind (\<lambda>c. c \<in> set (seps nt)) ?p = rfind (\<lambda>c. c \<in> set (seps nt)) b"
    by (simp only: rfind_append) simp
  have bd: "- 1 \<le> rfind (\<lambda>c. c \<in> set (seps nt)) b"
    "rfind (\<lambda>c. c \<in> set (seps nt)) b < int (length b)"
    using rfind_bounds [of "\<lambda>c. c \<in> set (seps nt)" b] by simp_all
  have slice: "take (nat (int (length b) - (rfind (\<lambda>c. c \<in> set (seps nt)) b + 1)))
       (drop (nat (rfind (\<lambda>c. c \<in> set (seps nt)) b + 1)) ?p)
     = drop (nat (rfind (\<lambda>c. c \<in> set (seps nt)) b + 1)) b"
    using bd by (simp add: nat_diff_distrib nat_le_iff)
  show ?thesis
    unfolding splitext_def Let_def dot sp slice using bd b by simp
qed

lemma splitext_concat: "fst (splitext nt p) @ snd (splitext nt p) = p"
  by (simp add: splitext_def Let_def)

definition temp_stem :: "env \<Rightarrow> path \<Rightarrow> string" where
  "temp_stem E file_path =
     ''exif_temp_'' @ str_nat (pid E) @ ''_'' @ str_int (hash E file_path mod 10000)"

lemma temp_name_stem: "temp_name E p fmt = temp_stem E p @ get_correct_extension fmt"
  by (simp add: temp_name_def temp_stem_def)

lemma str_nat_chars: "c \<in> set (str_nat n) \<Longrightarrow> 48 \<le> (of_char c :: nat) \<and> (of_char c :: nat) \<le> 57"
proof (induction n rule: str_nat.induct)
  case (1 n)
  show ?case
  proof (cases "n < 10")
    case True
    with "1.prems" show ?thesis by (auto simp: str_nat_small of_char_digit)
  next
    case False
    with "1.prems" have "c \<in> set (str_nat (n div 10)) \<or> c = digit_char (n mod 10)"
      by (auto simp: str_nat_big)
    then show ?thesis
    proof
      assume "c \<in> set (str_nat (n div 10))"
      with "1.IH" False show ?thesis by simp
    next
      assume "c = digit_char (n mod 10)"
      then show ?thesis by (simp add: of_char_digit)
    qed
  qed
qed

lemma str_nat_clean: "c \<in> set (str_nat n) \<Longrightarrow> c \<noteq> CHR ''.'' \<and> c \<notin> set (seps nt) \<and> c \<noteq> CHR ''_''"
  using str_nat_chars [of c n] by (auto simp: seps_def backslash_def)

lemma temp_stem_clean: "c \<in> set (temp_stem E p) \<Longrightarrow> c \<noteq> CHR ''.'' \<and> c \<notin> set (seps nt)"
proof -
  assume c: "c \<in> set (temp_stem E p)"
  have nn: "0 \<le> hash E p mod 10000" by simp
  from c have "c \<in> set ''exif_temp_'' \<or> c \<in> set (str_nat (pid E)) \<or> c = CHR ''_''
      \<or> c \<in> set (str_nat (nat (hash E p mod 10000)))"
    using nn by (auto simp: temp_stem_def str_int_def)
  then show ?thesis
    using str_nat_clean [of c "pid E" nt] str_nat_clean [of c "nat (hash E p mod 10000)" nt]
    by (auto simp: seps_def backslash_def)
qed

lemma get_correct_extension_cases:
  "get_correct_extension fmt \<in> {''.jpg'', ''.png'', ''.tiff'', ''.webp'', ''.bmp'', ''.tmp''}"
  by (cases fmt) (auto simp: format_map_def)

lemma get_correct_extension_shape:
  "\<exists>e. get_correct_extension fmt = CHR ''.'' # e \<and> (\<forall>c\<in>set e. c \<noteq> CHR ''.'' \<and> c \<notin> set (seps nt))"
  using get_correct_extension_cases [of fmt] by (auto simp: seps_def backslash_def)

lemma splitext_temp_path:
  "splitext (os_nt E) (temp_path E p fmt) =
     (join (os_nt E) (tempdir E) (temp_stem E p), get_correct_extension fmt)"
proof -
  let ?nt = "os_nt E"
  let ?issep = "\<lambda>c. c \<in> set (seps ?nt)"
  obtain e where ext: "get_correct_extension fmt = CHR ''.'' # e"
    and clean: "\<And>c. c \<in> set e \<Longrightarrow> c \<noteq> CHR ''.'' \<and> c \<notin> set (seps ?nt)"
    using get_correct_extension_shape [of fmt ?nt] by blast
  define d where "d = (if tempdir E = [] \<or> last (tempdir E) \<in> set (seps ?nt)
    then tempdir E else tempdir E @ [sep ?nt])"
  have j: "join ?nt (tempdir E) n = d @ n" for n
    by (simp add: join_def d_def)
  have b: "join ?nt (tempdir E) (temp_stem E p) = d @ temp_stem E p"
    by (rule j)
  have tp: "temp_path E p fmt = (d @ temp_stem E p) @ CHR ''.'' # e"
    by (simp add: temp_path_def temp_name_stem j ext)
  have rf: "rfind ?issep (d @ temp_stem E p) = rfind ?issep d"
    using temp_stem_clean [of _ E p ?nt] by (intro rfind_append_none) simp
  have bd: "- 1 \<le> rfind ?issep d" "rfind ?issep d < int (length d)"
    using rfind_bounds [of ?issep d] by simp_all
  then have dr: "drop (nat (rfind ?issep d + 1)) (d @ temp_stem E p)
      = drop (nat (rfind ?issep d + 1)) d @ temp_stem E p"
    by (simp add: nat_le_iff)
  have "CHR ''e'' \<in> set (temp_stem E p)" by (simp add: temp_stem_def)
  then have "list_ex (\<lambda>c. c \<noteq> CHR ''.'')
      (drop (nat (rfind ?issep (d @ temp_stem E p) + 1)) (d @ temp_stem E p))"
    unfolding rf dr by (auto simp: list_ex_iff)
  from splitext_append_ext [OF clean this] show ?thesis
    by (simp add: tp b ext)
qed

section \<open>Example environments\<close>

text \<open>
  Concrete environments and worlds on which the theorems below are exercised: a Windows
  or a POSIX platform, a tool and a fault oracle to choose, a fixed directory listing,
  and a file system given as a list of paths with their contents.
\<close>

definition example_env ::
  "bool \<Rightarrow> (string list \<Rightarrow> nat \<Rightarrow> world \<Rightarrow> (exn + completed) \<times> (path, bytes) fmap) \<Rightarrow>
   (event \<Rightarrow> world \<Rightarrow> exn option) \<Rightarrow> string list \<Rightarrow> env" where
  "example_env nt t f names =
     \<lparr>os_nt = nt, exe_directory = ''C:/app'', tempdir = ''C:/tmp/'', pid = 7,
      hash = (\<lambda>s. int (length s)), tool = t, fault = f, listdir = (\<lambda>d w. names)\<rparr>"

definition no_fault :: "event \<Rightarrow> world \<Rightarrow> exn option" where
  "no_fault e w = None"

definition example_world :: "(path \<times> bytes) list \<Rightarrow> reply list \<Rightarrow> world" where
  "example_world fs rs = \<lparr>files = fmap_of_list fs, cwd = ''C:/'', trace = [], stdin = rs\<rparr>"

text \<open>A tool that fails every invocation and touches nothing.\<close>

definition idle_tool ::
  "string list \<Rightarrow> nat \<Rightarrow> world \<Rightarrow> (exn + completed) \<times> (path, bytes) fmap" where
  "idle_tool argv timeout w = (Inr \<lparr>returncode = 1, stdout = [], stderr = []\<rparr>, files w)"

section \<open>Extension mismatch\<close>

text \<open>
  The canonical extensions of a format, and the one the temporary copy is given, as the
  specification lists them.
\<close>

definition canonical_extensions :: "string \<Rightarrow> string list" where
  "canonical_extensions fmt =
     (if fmt = ''JPEG'' then [''.jpg'', ''.jpeg'']
      else if fmt = ''PNG'' then [''.png'']
      else if fmt = ''TIFF'' then [''.tiff'', ''.tif'']
      else if fmt = ''WEBP'' then [''.webp'']
      else if fmt = ''BMP'' then [''.bmp'']
      else [])"

definition canonical_extension :: "string \<Rightarrow> string" where
  "canonical_extension fmt =
     (if fmt = ''JPEG'' then ''.jpg''
      else if fmt = ''PNG'' then ''.png''
      else if fmt = ''TIFF'' then ''.tiff''
      else if fmt = ''WEBP'' then ''.webp''
      else ''.bmp'')"

lemma choose_working_mismatch:
  assumes "check_format_mismatch (os_nt E) p fmt"
    and "choose_working E p fmt w = (Inr (t, wfile), w')"
  shows "t = Some wfile \<and> wfile = temp_path E p fmt
    \<and> fmlookup (files w') wfile = fmlookup (files w) p"
  using assms
  by (auto simp: choose_working_def io_bind_def io_return_def copy2_def print_def log_def Let_def
      split: option.splits if_splits)

section \<open>The backup path (C6)\<close>

lemma find_backup_free: "\<not> exists w bp \<Longrightarrow> find_backup w name ext c bp = bp"
  by (subst find_backup.simps) simp

lemma find_backup_taken:
  "exists w bp \<Longrightarrow>
     \<exists>k\<ge>c. find_backup w name ext c bp = backup_name_k name ext k
       \<and> \<not> exists w (backup_name_k name ext k)
       \<and> (\<forall>j. c \<le> j \<and> j < k \<longrightarrow> exists w (backup_name_k name ext j))"
proof (induction w name ext c bp rule: find_backup.induct)
  case (1 w name ext counter backup_path)
  let ?next = "backup_name_k name ext counter"
  have step: "find_backup w name ext counter backup_path
      = find_backup w name ext (counter + 1) ?next"
    using "1.prems" by (subst find_backup.simps) simp
  show ?case
  proof (cases "exists w ?next")
    case False
    then have "find_backup w name ext (counter + 1) ?next = ?next"
      by (rule find_backup_free)
    with step False show ?thesis by (intro exI [of _ counter]) auto
  next
    case True
    from "1.IH" [OF "1.prems" True] obtain k where k: "counter + 1 \<le> k"
      "find_backup w name ext (counter + 1) ?next = backup_name_k name ext k"
      "\<not> exists w (backup_name_k name ext k)"
      "\<forall>j. counter + 1 \<le> j \<and> j < k \<longrightarrow> exists w (backup_name_k name ext j)"
      by blast
    have "\<forall>j. counter \<le> j \<and> j < k \<longrightarrow> exists w (backup_name_k name ext j)"
    proof (intro allI impI)
      fix j assume "counter \<le> j \<and> j < k"
      then consider "j = counter" | "counter + 1 \<le> j \<and> j < k" by force
      then show "exists w (backup_name_k name ext j)"
        using True k(4) by cases simp_all
    qed
    with k step show ?thesis by (intro exI [of _ k]) simp
  qed
qed

lemma find_backup_not_exists: "\<not> exists w (find_backup w name ext c bp)"
  using find_backup_free [of w bp name ext c] find_backup_taken [of w bp c name ext]
  by (cases "exists w bp") auto

lemma backup_path_for_fresh: "\<not> exists w (backup_path_for E p w)"
  by (simp add: backup_path_for_def find_backup_not_exists split: prod.splits)

lemma make_backup_effect:
  assumes "make_backup E p w = (r, w')"
  shows "(trace w' = trace w @ [Copy2 p (backup_path_for E p w)]
          \<or> trace w' = trace w @ [Copy2 p (backup_path_for E p w),
                                  Print (BackupAt (backup_path_for E p w))])
       \<and> (\<forall>q. q \<noteq> backup_path_for E p w \<longrightarrow> fmlookup (files w') q = fmlookup (files w) q)
       \<and> (\<forall>u. r = Inr u \<longrightarrow> fmlookup (files w') (backup_path_for E p w) = fmlookup (files w) p)
       \<and> stdin w' = stdin w"
  using assms
  by (auto simp: make_backup_def io_bind_def copy2_def print_def log_def Let_def
      split: prod.splits option.splits if_splits sum.splits)

text \<open>A directory that already holds the first two backups of \<open>a.jpg\<close>.\<close>

definition backup_world :: world where
  "backup_world = example_world
     [(''a.jpg'', ''JPEG+exif''), (''a_backup.jpg'', ''first''), (''a_backup_1.jpg'', ''second'')] []"

text \<open>
  C6. For a file with stem \<open>name\<close> and extension \<open>ext\<close>, the backup path is
  \<open>name_backup+ext\<close> when nothing exists there, and otherwise \<open>name_backup_k+ext\<close> for
  the smallest \<open>k \<ge> 1\<close> whose path does not exist. The chosen path does not exist
  before the copy, the copy made by the backup step goes to it and nowhere else, so
  every file that existed keeps its content; on success the backup holds the content of
  the original and its path is reported.
\<close>

theorem backup_path_first_free:
  assumes "splitext (os_nt E) p = (name, ext)"
  shows "(\<not> exists w (backup_name name ext) \<longrightarrow> backup_path_for E p w = backup_name name ext)
    \<and> (exists w (backup_name name ext) \<longrightarrow>
         (\<exists>k\<ge>1. backup_path_for E p w = backup_name_k name ext k
            \<and> (\<forall>j. 1 \<le> j \<and> j < k \<longrightarrow> exists w (backup_name_k name ext j))))
    \<and> \<not> exists w (backup_path_for E p w)
    \<and> (\<forall>r w'. make_backup E p w = (r, w') \<longrightarrow>
          (\<forall>src dst. Copy2 src dst \<in> set (drop (length (trace w)) (trace w')) \<longrightarrow>
             src = p \<and> dst = backup_path_for E p w)
          \<and> (\<forall>q. exists w q \<longrightarrow> fmlookup (files w') q = fmlookup (files w) q)
          \<and> (r = Inr () \<longrightarrow>
               fmlookup (files w') (backup_path_for E p w) = fmlookup (files w) p
               \<and> Print (BackupAt (backup_path_for E p w)) \<in> set (trace w')))"
proof -
  let ?bp = "backup_path_for E p w"
  have bp: "?bp = find_backup w name ext 1 (backup_name name ext)"
    using assms by (simp add: backup_path_for_def)
  have a: "\<not> exists w (backup_name name ext) \<longrightarrow> ?bp = backup_name name ext"
    by (simp add: bp find_backup_free)
  have b: "exists w (backup_name name ext) \<longrightarrow>
         (\<exists>k\<ge>1. ?bp = backup_name_k name ext k
            \<and> (\<forall>j. 1 \<le> j \<and> j < k \<longrightarrow> exists w (backup_name_k name ext j)))"
    using find_backup_taken [of w "backup_name name ext" 1 name ext] unfolding bp by blast
  have c: "\<not> exists w ?bp" by (rule backup_path_for_fresh)
  have d: "(\<forall>src dst. Copy2 src dst \<in> set (drop (length (trace w)) (trace w')) \<longrightarrow>
             src = p \<and> dst = ?bp)
          \<and> (\<forall>q. exists w q \<longrightarrow> fmlookup (files w') q = fmlookup (files w) q)
          \<and> (r = Inr () \<longrightarrow> fmlookup (files w') ?bp = fmlookup (files w) p
               \<and> Print (BackupAt ?bp) \<in> set (trace w'))"
    if m: "make_backup E p w = (r, w')" for r w'
  proof -
    note eff = make_backup_effect [OF m]
    have 1: "\<forall>src dst. Copy2 src dst \<in> set (drop (length (trace w)) (trace w')) \<longrightarrow>
             src = p \<and> dst = ?bp"
      using eff by auto
    have 2: "\<forall>q. exists w q \<longrightarrow> fmlookup (files w') q = fmlookup (files w) q"
      using eff c by metis
    have 3: "r = Inr () \<longrightarrow> fmlookup (files w') ?bp = fmlookup (files w) p
               \<and> Print (BackupAt ?bp) \<in> set (trace w')"
      using m by (auto simp: make_backup_def io_bind_def copy2_def print_def log_def Let_def
          split: prod.splits option.splits if_splits sum.splits)
    from 1 2 3 show ?thesis by blast
  qed
  from a b c d show ?thesis by blast
qed

theorem backup_path_first_free_witness:
  "splitext True ''a.jpg'' = (''a'', ''.jpg'')
   \<and> exists backup_world (backup_name ''a'' ''.jpg'')
   \<and> \<not> exists backup_world
        (backup_path_for (example_env True idle_tool no_fault []) ''a.jpg'' backup_world)
   \<and> fmlookup (files (snd (make_backup (example_env True idle_tool no_fault []) ''a.jpg''
        backup_world))) ''a_backup.jpg'' = Some ''first''"
proof -
  let ?E = "example_env True idle_tool no_fault []"
  have nt: "os_nt ?E = True" by (simp add: example_env_def)
  have s: "splitext (os_nt ?E) ''a.jpg'' = (''a'', ''.jpg'')" by code_simp
  have e: "exists backup_world (backup_name ''a'' ''.jpg'')" by code_simp
  have e1: "exists backup_world ''a_backup.jpg''" by code_simp
  have l: "fmlookup (files backup_world) ''a_backup.jpg'' = Some ''first''" by code_simp
  note t = backup_path_first_free [OF s, of backup_world]
  from t have "\<not> exists backup_world (backup_path_for ?E ''a.jpg'' backup_world)" by blast
  moreover from t e1 l have "fmlookup (files (snd (make_backup ?E ''a.jpg'' backup_world)))
      ''a_backup.jpg'' = Some ''first''"
    by (metis prod.collapse)
  ultimately show ?thesis using s e unfolding nt by blast
qed

section \<open>Temporary names (C7)\<close>

lemma takeWhile_digits:
  "takeWhile (\<lambda>c. c \<noteq> CHR ''.'') (str_nat n @ CHR ''.'' # e) = str_nat n"
proof -
  have "\<And>c. c \<in> set (str_nat n) \<Longrightarrow> c \<noteq> CHR ''.''"
    using str_nat_clean by blast
  then show ?thesis by (simp add: takeWhile_append2 [where ys = "CHR ''.'' # e"] )
qed

lemma digits_ext_eq:
  assumes "str_nat a @ CHR ''.'' # e1 = str_nat b @ CHR ''.'' # e2"
  shows "a = b \<and> e1 = e2"
proof -
  from assms have "takeWhile (\<lambda>c. c \<noteq> CHR ''.'') (str_nat a @ CHR ''.'' # e1)
      = takeWhile (\<lambda>c. c \<noteq> CHR ''.'') (str_nat b @ CHR ''.'' # e2)" by simp
  then have "str_nat a = str_nat b" by (simp only: takeWhile_digits)
  with assms show ?thesis by (simp add: str_nat_inj)
qed

lemma join_prefix:
  "join nt d n = (if d = [] \<or> last d \<in> set (seps nt) then d else d @ [sep nt]) @ n"
  by (simp add: join_def)

lemma temp_path_eq_iff:
  "temp_path E p f = temp_path E q g \<longleftrightarrow>
     hash E p mod 10000 = hash E q mod 10000 \<and> get_correct_extension f = get_correct_extension g"
proof -
  obtain e1 where e1: "get_correct_extension f = CHR ''.'' # e1"
    using get_correct_extension_shape [of f True] by blast
  obtain e2 where e2: "get_correct_extension g = CHR ''.'' # e2"
    using get_correct_extension_shape [of g True] by blast
  have nn: "0 \<le> hash E p mod 10000" "0 \<le> hash E q mod 10000" by simp_all
  have si: "str_int (hash E p mod 10000) = str_nat (nat (hash E p mod 10000))"
    "str_int (hash E q mod 10000) = str_nat (nat (hash E q mod 10000))"
    by (simp_all add: str_int_def)
  have "temp_path E p f = temp_path E q g \<longleftrightarrow>
      str_nat (nat (hash E p mod 10000)) @ CHR ''.'' # e1
        = str_nat (nat (hash E q mod 10000)) @ CHR ''.'' # e2"
    by (simp add: temp_path_def join_prefix temp_name_def si e1 e2)
  also have "\<dots> \<longleftrightarrow> nat (hash E p mod 10000) = nat (hash E q mod 10000) \<and> e1 = e2"
    by (auto dest: digits_ext_eq)
  also have "\<dots> \<longleftrightarrow> hash E p mod 10000 = hash E q mod 10000 \<and> e1 = e2"
    by (simp only: eq_nat_nat_iff [OF nn])
  finally show ?thesis by (simp add: e1 e2)
qed


text \<open>
  The claim C7 as stated, that two distinct paths never share a temporary name within
  one process, fails in every environment: the name keeps only the hash modulo 10000,
  and there are more than 10000 paths.
\<close>

theorem temp_names_collide:
  "\<not> (\<exists>E fmt. \<forall>p q. p \<noteq> q \<longrightarrow> temp_path E p fmt \<noteq> temp_path E q fmt)"
proof
  assume "\<exists>E fmt. \<forall>p q. p \<noteq> q \<longrightarrow> temp_path E p fmt \<noteq> temp_path E q fmt"
  then obtain E fmt where u: "\<forall>p q. p \<noteq> q \<longrightarrow> temp_path E p fmt \<noteq> temp_path E q fmt"
    by blast
  let ?h = "\<lambda>p. hash E p mod 10000"
  have "inj ?h"
  proof (rule injI)
    fix p q assume "?h p = ?h q"
    then have "temp_path E p fmt = temp_path E q fmt" by (simp add: temp_path_eq_iff)
    with u show "p = q" by blast
  qed
  moreover have "range ?h \<subseteq> {0..<10000}" by auto
  then have "finite (range ?h)" by (rule finite_subset) simp
  ultimately have "finite (UNIV :: string set)" by (rule finite_imageD [rotated])
  then show False by (simp add: infinite_UNIV_listI)
qed


text \<open>
  C7, amended. Within one process the temporary paths of two files differ exactly when
  their hashes differ modulo 10000 or the extensions chosen for their formats differ.
\<close>

theorem temp_names_distinct_iff:
  "temp_path E p f \<noteq> temp_path E q g \<longleftrightarrow>
     hash E p mod 10000 \<noteq> hash E q mod 10000 \<or> get_correct_extension f \<noteq> get_correct_extension g"
  by (simp add: temp_path_eq_iff)

theorem temp_names_distinct_iff_witness:
  "temp_path (example_env True idle_tool no_fault []) ''a.png'' (Some ''JPEG'')
     \<noteq> temp_path (example_env True idle_tool no_fault []) ''photo.png'' (Some ''JPEG'')
   \<and> temp_path (example_env True idle_tool no_fault []) ''a.png'' (Some ''JPEG'')
     = temp_path (example_env True idle_tool no_fault []) ''b.png'' (Some ''JPEG'')"
proof -
  let ?E = "example_env True idle_tool no_fault []"
  have a: "hash ?E ''a.png'' mod 10000 \<noteq> hash ?E ''photo.png'' mod 10000" by code_simp
  have b: "hash ?E ''a.png'' mod 10000 = hash ?E ''b.png'' mod 10000" by code_simp
  from a temp_names_distinct_iff [of ?E "''a.png''" "Some ''JPEG''" "''photo.png''" "Some ''JPEG''"]
  have "temp_path ?E ''a.png'' (Some ''JPEG'') \<noteq> temp_path ?E ''photo.png'' (Some ''JPEG'')"
    by blast
  moreover from b temp_names_distinct_iff [of ?E "''a.png''" "Some ''JPEG''" "''b.png''" "Some ''JPEG''"]
  have "temp_path ?E ''a.png'' (Some ''JPEG'') = temp_path ?E ''b.png'' (Some ''JPEG'')"
    by blast
  ultimately show ?thesis by blast
qed

section \<open>File discovery (C8)\<close>

text \<open>
  The names the discoverer returns, in the words of the amended claim: not hidden, and
  ending in one of the extensions, compared without regard to case on Windows and in
  the all-lower-case or all-upper-case spelling elsewhere.
\<close>

definition image_name :: "bool \<Rightarrow> string \<Rightarrow> bool" where
  "image_name nt n =
     (\<not> ishidden n \<and>
      (\<exists>e\<in>set extensions.
         if nt then ends_with (lower n) e else ends_with n e \<or> ends_with n (upper e)))"

lemma map_eq_cong_target:
  assumes "\<And>c. g c \<in> set e \<or> h c \<in> set e \<Longrightarrow> g c = h c"
  shows "map g ys = e \<longleftrightarrow> map h ys = e"
proof
  assume m: "map g ys = e"
  then have "\<And>c. c \<in> set ys \<Longrightarrow> g c \<in> set e" by auto
  with assms have "\<And>c. c \<in> set ys \<Longrightarrow> g c = h c" by blast
  then have "map g ys = map h ys" by simp
  with m show "map h ys = e" by simp
next
  assume m: "map h ys = e"
  then have "\<And>c. c \<in> set ys \<Longrightarrow> h c \<in> set e" by auto
  with assms have "\<And>c. c \<in> set ys \<Longrightarrow> g c = h c" by blast
  then have "map g ys = map h ys" by simp
  with m show "map g ys = e" by simp
qed

lemma ends_with_map_cong:
  assumes "\<And>c. g c \<in> set e \<or> h c \<in> set e \<Longrightarrow> g c = h c"
  shows "ends_with (map g xs) e \<longleftrightarrow> ends_with (map h xs) e"
  using map_eq_cong_target [of g e h "drop (length xs - length e) xs", OF assms]
  by (simp add: ends_with_def drop_map)

lemma lower_backslash: "lower_char backslash = backslash" by code_simp
lemma lower_slash: "lower_char CHR ''/'' = CHR ''/''" by code_simp

lemma extensions_no_sep:
  "e \<in> set extensions \<Longrightarrow> backslash \<notin> set e \<and> CHR ''/'' \<notin> set e"
  by (auto simp: extensions_def backslash_def)

lemma normcase_extensions:
  "e \<in> set extensions \<Longrightarrow> normcase True e = e \<and> normcase True (upper e) = e"
proof -
  have "\<forall>e\<in>set extensions. normcase True e = e \<and> normcase True (upper e) = e"
    by code_simp
  then show "e \<in> set extensions \<Longrightarrow> normcase True e = e \<and> normcase True (upper e) = e"
    by blast
qed

lemma ends_with_normcase:
  assumes "e \<in> set extensions"
  shows "ends_with (normcase True n) e \<longleftrightarrow> ends_with (lower n) e"
proof -
  let ?f = "\<lambda>c. if c = CHR ''/'' then backslash else c"
  have "ends_with (map (lower_char \<circ> ?f) n) e \<longleftrightarrow> ends_with (map lower_char n) e"
  proof (rule ends_with_map_cong)
    fix c assume "(lower_char \<circ> ?f) c \<in> set e \<or> lower_char c \<in> set e"
    then show "(lower_char \<circ> ?f) c = lower_char c"
      using extensions_no_sep [OF assms] by (cases "c = CHR ''/''") (auto simp: lower_backslash lower_slash)
  qed
  then show ?thesis by (simp add: normcase_def lower_def)
qed

lemma glob_match_iff:
  assumes "e \<in> set extensions"
  shows "(ends_with (normcase nt n) (normcase nt e) \<or> ends_with (normcase nt n) (normcase nt (upper e)))
     \<longleftrightarrow> (if nt then ends_with (lower n) e else ends_with n e \<or> ends_with n (upper e))"
proof (cases nt)
  case True
  then show ?thesis
    using normcase_extensions [OF assms] ends_with_normcase [OF assms, of n] by simp
next
  case False
  then show ?thesis by (simp add: normcase_def)
qed

lemma set_globs:
  "set (concat (map (\<lambda>ext. glob_star E ext w @ glob_star E (upper ext) w) extensions))
     = {n \<in> set (listdir E (cwd w) w). image_name (os_nt E) n}"
proof -
  have "set (concat (map (\<lambda>ext. glob_star E ext w @ glob_star E (upper ext) w) extensions))
      = {n \<in> set (listdir E (cwd w) w). \<not> ishidden n \<and> (\<exists>e\<in>set extensions.
           ends_with (normcase (os_nt E) n) (normcase (os_nt E) e)
           \<or> ends_with (normcase (os_nt E) n) (normcase (os_nt E) (upper e)))}"
    by (auto simp: glob_star_def)
  also have "\<dots> = {n \<in> set (listdir E (cwd w) w). image_name (os_nt E) n}"
    using glob_match_iff [of _ "os_nt E"] by (auto simp: image_name_def)
  finally show ?thesis .
qed

text \<open>The world the discoverer lists: the process has entered the program's directory.\<close>

definition entered :: "env \<Rightarrow> world \<Rightarrow> world" where
  "entered E w = (log (Chdir (exe_directory E)) w)\<lparr>cwd := exe_directory E\<rparr>"

lemma get_image_files_entered:
  assumes "fault E (Chdir (exe_directory E)) w = None"
  shows "get_image_files E w =
     (Inr (sort (remdups (concat (map (\<lambda>ext. glob_star E ext (entered E w)
          @ glob_star E (upper ext) (entered E w)) extensions)))), entered E w)"
  using assms by (simp add: get_image_files_def io_bind_def chdir_def Let_def entered_def)

lemma get_image_files_refused:
  assumes "fault E (Chdir (exe_directory E)) w = Some e"
  shows "get_image_files E w = (Inl e, log (Chdir (exe_directory E)) w)"
  using assms by (simp add: get_image_files_def io_bind_def chdir_def Let_def)


definition locked_dir :: "event \<Rightarrow> world \<Rightarrow> exn option" where
  "locked_dir e w = (case e of Chdir d \<Rightarrow> Some (Exception ''PermissionError'') | _ \<Rightarrow> None)"


text \<open>
  The claim C8 as stated fails on two kinds of file whose extension, lower-cased, is in
  the set: a name that starts with a dot is skipped by \<open>glob\<close> on every platform, and
  off Windows a mixed-case extension matches neither pattern.
\<close>

theorem discovery_misses_files:
  "fst (get_image_files (example_env True idle_tool no_fault [''.a.jpg'', ''b.jpg''])
          (example_world [] [])) = Inr [''b.jpg'']
   \<and> lower (snd (splitext True ''.a.jpg'')) = ''.jpg''
   \<and> fst (get_image_files (example_env False idle_tool no_fault [''c.Jpg'', ''d.JPG''])
          (example_world [] [])) = Inr [''d.JPG'']
   \<and> lower (snd (splitext False ''c.Jpg'')) = ''.jpg''"
  by code_simp


text \<open>
  C8, amended. The discoverer first changes into the program's own directory. When that
  call raises, the discoverer raises the same error and lists nothing. Otherwise it
  returns, in the world where the current directory is the program's own and nothing
  else has changed, a sorted, duplicate-free list holding exactly the entries of that
  directory that are image names in the sense above.
\<close>

theorem get_image_files_result:
  "(fault E (Chdir (exe_directory E)) w = None \<longrightarrow>
      (\<exists>fs w'. get_image_files E w = (Inr fs, w')
         \<and> cwd w' = exe_directory E
         \<and> trace w' = trace w @ [Chdir (exe_directory E)]
         \<and> files w' = files w \<and> stdin w' = stdin w
         \<and> sorted fs \<and> distinct fs
         \<and> set fs = {n \<in> set (listdir E (exe_directory E) w'). image_name (os_nt E) n}))
   \<and> (\<forall>e. fault E (Chdir (exe_directory E)) w = Some e \<longrightarrow>
         get_image_files E w = (Inl e, log (Chdir (exe_directory E)) w))"
proof (intro conjI impI allI)
  assume nf: "fault E (Chdir (exe_directory E)) w = None"
  let ?w = "entered E w"
  let ?fs = "sort (remdups (concat (map (\<lambda>ext. glob_star E ext ?w
          @ glob_star E (upper ext) ?w) extensions)))"
  have c: "cwd ?w = exe_directory E" by (simp add: entered_def)
  have "get_image_files E w = (Inr ?fs, ?w)" by (rule get_image_files_entered [OF nf])
  moreover have "trace ?w = trace w @ [Chdir (exe_directory E)]"
    and "files ?w = files w" and "stdin ?w = stdin w"
    by (simp_all add: entered_def log_def)
  moreover have "sorted ?fs" "distinct ?fs" by simp_all
  moreover have "set ?fs = {n \<in> set (listdir E (exe_directory E) ?w). image_name (os_nt E) n}"
    by (simp only: set_sort set_remdups set_globs c)
  ultimately show "\<exists>fs w'. get_image_files E w = (Inr fs, w')
         \<and> cwd w' = exe_directory E
         \<and> trace w' = trace w @ [Chdir (exe_directory E)]
         \<and> files w' = files w \<and> stdin w' = stdin w
         \<and> sorted fs \<and> distinct fs
         \<and> set fs = {n \<in> set (listdir E (exe_directory E) w'). image_name (os_nt E) n}"
    using c by blast
next
  fix e assume "fault E (Chdir (exe_directory E)) w = Some e"
  then show "get_image_files E w = (Inl e, log (Chdir (exe_directory E)) w)"
    by (rule get_image_files_refused)
qed

theorem get_image_files_result_witness:
  "fst (get_image_files
          (example_env True idle_tool no_fault [''z.PNG'', ''.a.jpg'', ''b.jpg'', ''B.JpG'', ''x.txt''])
          (example_world [] [])) = Inr [''B.JpG'', ''b.jpg'', ''z.PNG'']
   \<and> cwd (example_world [] []) = ''C:/''
   \<and> cwd (snd (get_image_files
          (example_env True idle_tool no_fault [''z.PNG'', ''.a.jpg'', ''b.jpg'', ''B.JpG'', ''x.txt''])
          (example_world [] []))) = ''C:/app''
   \<and> trace (snd (get_image_files
          (example_env True idle_tool no_fault [''z.PNG'', ''.a.jpg'', ''b.jpg'', ''B.JpG'', ''x.txt''])
          (example_world [] []))) = [Chdir ''C:/app'']
   \<and> set [''B.JpG'', ''b.jpg'', ''z.PNG'']
       = {n \<in> set [''z.PNG'', ''.a.jpg'', ''b.jpg'', ''B.JpG'', ''x.txt'']. image_name True n}
   \<and> get_image_files (example_env True idle_tool locked_dir [''b.jpg'']) (example_world [] [])
       = (Inl (Exception ''PermissionError''), log (Chdir ''C:/app'') (example_world [] []))"
proof -
  let ?E = "example_env True idle_tool no_fault [''z.PNG'', ''.a.jpg'', ''b.jpg'', ''B.JpG'', ''x.txt'']"
  let ?L = "example_env True idle_tool locked_dir [''b.jpg'']"
  let ?w = "example_world [] []"
  have r: "fst (get_image_files ?E ?w) = Inr [''B.JpG'', ''b.jpg'', ''z.PNG'']"
    by code_simp
  have c0: "cwd ?w = ''C:/''" by (simp add: example_world_def)
  have t0: "trace ?w = []" by (simp add: example_world_def)
  have x: "exe_directory ?E = ''C:/app''" "os_nt ?E = True"
    "listdir ?E = (\<lambda>d w. [''z.PNG'', ''.a.jpg'', ''b.jpg'', ''B.JpG'', ''x.txt''])"
    by (simp_all add: example_env_def)
  have nf: "fault ?E (Chdir (exe_directory ?E)) ?w = None"
    by (simp add: example_env_def no_fault_def)
  have lk: "fault ?L (Chdir (exe_directory ?L)) ?w = Some (Exception ''PermissionError'')"
    by (simp add: example_env_def locked_dir_def)
  have xl: "exe_directory ?L = ''C:/app''" by (simp add: example_env_def)
  from get_image_files_result [of ?E ?w] nf obtain fs w'
    where g: "get_image_files ?E ?w = (Inr fs, w')"
      and c: "cwd w' = exe_directory ?E"
      and t: "trace w' = trace ?w @ [Chdir (exe_directory ?E)]"
      and s: "set fs = {n \<in> set (listdir ?E (exe_directory ?E) w'). image_name (os_nt ?E) n}"
    by blast
  from g r have fs: "fs = [''B.JpG'', ''b.jpg'', ''z.PNG'']" by simp
  from get_image_files_result [of ?L ?w] lk
  have l: "get_image_files ?L ?w
      = (Inl (Exception ''PermissionError''), log (Chdir (exe_directory ?L)) ?w)"
    by blast
  show ?thesis
    using r c0 g c t s l unfolding fs x xl t0 by simp
qed

section \<open>Traces\<close>

text \<open>The events a computation added to the trace, and a bound on what they may be.\<close>

definition events_since :: "world \<Rightarrow> world \<Rightarrow> event list" where
  "events_since w w' = drop (length (trace w)) (trace w')"

definition emits :: "(event \<Rightarrow> bool) \<Rightarrow> world \<Rightarrow> world \<Rightarrow> bool" where
  "emits Q w w' = (\<exists>evs. trace w' = trace w @ evs \<and> list_all Q evs)"

lemma emits_refl: "emits Q w w"
  by (simp add: emits_def)

lemma emits_trans: "emits Q w w1 \<Longrightarrow> emits Q w1 w2 \<Longrightarrow> emits Q w w2"
  by (auto simp: emits_def)

lemma emits_mono: "emits Q w w' \<Longrightarrow> (\<And>e. Q e \<Longrightarrow> Q' e) \<Longrightarrow> emits Q' w w'"
  by (auto simp: emits_def list_all_iff)

lemma emits_log: "Q e \<Longrightarrow> emits Q w (log e w)"
  by (simp add: emits_def log_def)

lemma emits_events: "emits Q w w' \<Longrightarrow> trace w' = trace w @ events_since w w' \<and> list_all Q (events_since w w')"
  by (auto simp: emits_def events_since_def)


lemma events_since_trans:
  "emits Q w w1 \<Longrightarrow> emits Q' w1 w2 \<Longrightarrow> events_since w w2 = events_since w w1 @ events_since w1 w2"
  by (auto simp: emits_def events_since_def)

lemma emits_print: "print m w = (r, w') \<Longrightarrow> Q (Print m) \<Longrightarrow> emits Q w w'"
  by (auto simp: print_def emits_log)

lemma emits_getsize: "getsize E p w = (r, w') \<Longrightarrow> Q (Getsize p) \<Longrightarrow> emits Q w w'"
  by (auto simp: getsize_def Let_def emits_log split: option.splits)

lemma emits_copy2: "copy2 E s d w = (r, w') \<Longrightarrow> Q (Copy2 s d) \<Longrightarrow> emits Q w w'"
  by (auto simp: copy2_def Let_def emits_def log_def split: option.splits if_splits)

lemma emits_remove: "remove E p w = (r, w') \<Longrightarrow> Q (Remove p) \<Longrightarrow> emits Q w w'"
  by (auto simp: remove_def Let_def emits_def log_def split: option.splits if_splits)

lemma emits_remove_quiet: "remove_quiet E p w = (r, w') \<Longrightarrow> Q (Remove p) \<Longrightarrow> emits Q w w'"
  by (auto simp: remove_quiet_def emits_remove split: prod.splits)

lemma emits_chdir: "chdir E d w = (r, w') \<Longrightarrow> Q (Chdir d) \<Longrightarrow> emits Q w w'"
  by (auto simp: chdir_def Let_def emits_def log_def split: option.splits)

lemma emits_run: "subprocess_run E argv t w = (r, w') \<Longrightarrow> Q (Run argv t) \<Longrightarrow> emits Q w w'"
  by (auto simp: subprocess_run_def emits_def log_def split: prod.splits)

lemma emits_input: "input_line w = (r, w') \<Longrightarrow> Q Input \<Longrightarrow> emits Q w w'"
  by (auto simp: input_line_def emits_def log_def split: list.splits)

lemma emits_return: "io_return a w = (r, w') \<Longrightarrow> emits Q w w'"
  by (auto simp: io_return_def emits_refl)

lemma emits_bind:
  assumes "io_bind m k w = (r, w')"
    and "\<And>r1 w1. m w = (r1, w1) \<Longrightarrow> emits Q w w1"
    and "\<And>a w1. m w = (Inr a, w1) \<Longrightarrow> k a w1 = (r, w') \<Longrightarrow> emits Q w1 w'"
  shows "emits Q w w'"
proof (cases "m w")
  case (Pair r1 w1)
  show ?thesis
  proof (cases r1)
    case (Inl e)
    with Pair assms(1) have "w' = w1" by (simp add: io_bind_def)
    with assms(2) [OF Pair] show ?thesis by simp
  next
    case (Inr a)
    with Pair assms(1) have "k a w1 = (r, w')" by (simp add: io_bind_def)
    with assms(2) [OF Pair] assms(3) Pair Inr show ?thesis by (blast intro: emits_trans)
  qed
qed

lemma emits_wait_key: "wait_key w = (r, w') \<Longrightarrow> Q Input \<Longrightarrow> emits Q w w'"
  unfolding wait_key_def
  by (erule emits_bind) (auto intro: emits_input emits_return)

text \<open>The invocations among a list of events.\<close>

fun invocation :: "event \<Rightarrow> (string list \<times> nat) list" where
  "invocation (Run argv timeout) = [(argv, timeout)]"
| "invocation e = []"

definition invocations :: "event list \<Rightarrow> (string list \<times> nat) list" where
  "invocations evs = concat (map invocation evs)"

fun is_run :: "event \<Rightarrow> bool" where
  "is_run (Run argv timeout) = True"
| "is_run e = False"

lemma invocations_append: "invocations (xs @ ys) = invocations xs @ invocations ys"
  by (simp add: invocations_def)

lemma invocations_silent: "list_all (\<lambda>e. \<not> is_run e) evs \<Longrightarrow> invocations evs = []"
proof (induction evs)
  case Nil
  then show ?case by (simp add: invocations_def)
next
  case (Cons e evs)
  then show ?case by (cases e) (simp_all add: invocations_def)
qed

lemma silent_invocations: "emits (\<lambda>e. \<not> is_run e) w w' \<Longrightarrow> invocations (events_since w w') = []"
  using emits_events invocations_silent by blast

section \<open>External-tool invocations (C3)\<close>

lemma io_bind_cases:
  assumes "io_bind m k w = (r, w')"
  obtains (raised) e where "m w = (Inl e, w')" "r = Inl e"
    | (returned) a w1 where "m w = (Inr a, w1)" "k a w1 = (r, w')"
  using assms by (auto simp: io_bind_def split: prod.splits sum.splits)

lemma try_paths_trace:
  "try_paths E ps w = (r, w') \<Longrightarrow>
     \<exists>k\<le>length ps. trace w' = trace w @ map (\<lambda>p. Run [p, ''-ver''] 5) (take k ps)"
proof (induction ps arbitrary: w)
  case Nil
  then show ?case by simp
next
  case (Cons p ps)
  obtain r1 w1 where s: "subprocess_run E [p, ''-ver''] 5 w = (r1, w1)" by force
  then have t1: "trace w1 = trace w @ [Run [p, ''-ver''] 5]"
    by (auto simp: subprocess_run_def log_def split: prod.splits)
  show ?case
  proof (cases "\<exists>c. r1 = Inr c \<and> returncode c = 0")
    case True
    with Cons.prems s have "w' = w1" by auto
    with t1 show ?thesis by (intro exI [of _ 1]) simp
  next
    case False
    with Cons.prems s have "try_paths E ps w1 = (r, w')"
      by (cases r1) auto
    from Cons.IH [OF this] obtain k where "k \<le> length ps"
      "trace w' = trace w1 @ map (\<lambda>p. Run [p, ''-ver''] 5) (take k ps)" by blast
    with t1 show ?thesis by (intro exI [of _ "Suc k"]) simp
  qed
qed

lemma try_paths_adopts: "try_paths E ps w = (Some (p, v), w') \<Longrightarrow> p \<in> set ps"
  by (induction ps arbitrary: w) (auto split: prod.splits sum.splits if_splits)

lemma get_file_info_trace:
  "get_file_info E tp f w = (r, w') \<Longrightarrow>
     trace w' = trace w @ [Run (filetype_query tp f) 10]
     \<or> trace w' = trace w @ [Run (filetype_query tp f) 10, Run (exif_query tp f) 10]"
  by (auto simp: get_file_info_def subprocess_run_def log_def Let_def
      split: prod.splits sum.splits if_splits)

text \<open>Line 145 and line 155: the file the tool is given.\<close>

definition working_file :: "env \<Rightarrow> path \<Rightarrow> string option \<Rightarrow> path" where
  "working_file E file_path actual_format =
     (if check_format_mismatch (os_nt E) file_path actual_format
      then temp_path E file_path actual_format else file_path)"

lemmas prim_defs = io_bind_def io_return_def print_def log_def getsize_def copy2_def
  remove_def remove_quiet_def subprocess_run_def chdir_def input_line_def Let_def

lemma silent_make_backup: "make_backup E g w = (r, w') \<Longrightarrow> emits (\<lambda>e. \<not> is_run e) w w'"
  by (auto simp: make_backup_def emits_def prim_defs split: prod.splits sum.splits option.splits if_splits)

lemma choose_working_result:
  "choose_working E g fmt w = (Inr (t, wfile), w') \<Longrightarrow>
     wfile = working_file E g fmt
     \<and> t = (if check_format_mismatch (os_nt E) g fmt then Some (temp_path E g fmt) else None)"
  by (auto simp: choose_working_def working_file_def io_bind_def io_return_def print_def Let_def
      split: if_splits prod.splits sum.splits)

lemma silent_choose_working: "choose_working E g fmt w = (r, w') \<Longrightarrow> emits (\<lambda>e. \<not> is_run e) w w'"
  by (auto simp: choose_working_def emits_def prim_defs split: prod.splits sum.splits option.splits if_splits)

lemma silent_after_tool:
  "after_tool E g sz t res w = (r, w') \<Longrightarrow> emits (\<lambda>e. \<not> is_run e) w w'"
  by (auto simp: after_tool_def emits_def prim_defs split: prod.splits sum.splits option.splits if_splits)

lemma silent_cleanup: "cleanup E t w = (r, w') \<Longrightarrow> emits (\<lambda>e. \<not> is_run e) w w'"
  by (auto simp: cleanup_def emits_def prim_defs split: prod.splits sum.splits option.splits if_splits)


lemma silent_getsize: "getsize E p w = (r, w') \<Longrightarrow> emits (\<lambda>e. \<not> is_run e) w w'"
  by (erule emits_getsize) simp

lemma run_trace: "subprocess_run E argv t w = (r, w') \<Longrightarrow> trace w' = trace w @ [Run argv t]"
  by (auto simp: subprocess_run_def log_def split: prod.splits)

lemma run_events: "subprocess_run E argv t w = (r, w') \<Longrightarrow> events_since w w' = [Run argv t]"
  by (simp add: events_since_def run_trace)

lemma run_emits: "subprocess_run E argv t w = (r, w') \<Longrightarrow> emits (\<lambda>e. True) w w'"
  by (erule emits_run) simp

lemma silent_weaken: "emits (\<lambda>e. \<not> is_run e) w w' \<Longrightarrow> emits (\<lambda>e. True) w w'"
  by (erule emits_mono) simp

lemma invocations_since_trans:
  "emits Q w w1 \<Longrightarrow> emits Q' w1 w2 \<Longrightarrow>
     invocations (events_since w w2)
       = invocations (events_since w w1) @ invocations (events_since w1 w2)"
  by (simp add: events_since_trans invocations_append)

lemma invocations_single: "invocations [Run argv t] = [(argv, t)]"
  by (simp add: invocations_def)

lemma remove_exif_body_invocations:
  assumes "remove_exif_body E tp g fmt cb w = (r, w')"
  shows "emits (\<lambda>e. True) w w' \<and>
    (invocations (events_since w w') = []
     \<or> invocations (events_since w w') = [(strip_cmd tp (working_file E g fmt), 30)])"
  using assms unfolding remove_exif_body_def
proof (cases rule: io_bind_cases)
  case (raised e)
  then show ?thesis using silent_getsize silent_invocations silent_weaken by blast
next
  case (returned sz w1)
  note s1 = silent_getsize [OF returned(1)]
  from returned(2) show ?thesis
  proof (cases rule: io_bind_cases)
    case (raised e)
    then have "emits (\<lambda>e. \<not> is_run e) w1 w'"
      by (auto split: if_splits intro: silent_make_backup emits_return)
    with s1 have "emits (\<lambda>e. \<not> is_run e) w w'" by (rule emits_trans)
    then show ?thesis using silent_invocations silent_weaken by blast
  next
    case (returned u w2)
    then have "emits (\<lambda>e. \<not> is_run e) w1 w2"
      by (auto split: if_splits intro: silent_make_backup emits_return)
    with s1 have s2: "emits (\<lambda>e. \<not> is_run e) w w2" by (rule emits_trans)
    from returned(2) show ?thesis
    proof (cases rule: io_bind_cases)
      case (raised e)
      with s2 have "emits (\<lambda>e. \<not> is_run e) w w'"
        by (blast intro: emits_trans silent_choose_working)
      then show ?thesis using silent_invocations silent_weaken by blast
    next
      case (returned cw w3)
      obtain t wfile where cw: "cw = (t, wfile)" by (cases cw)
      from returned(1) cw have wf: "wfile = working_file E g fmt"
        using choose_working_result by blast
      from s2 returned(1) have s3: "emits (\<lambda>e. \<not> is_run e) w w3"
        by (blast intro: emits_trans silent_choose_working)
      from returned(2) cw have rest: "io_bind (subprocess_run E (strip_cmd tp wfile) 30)
          (\<lambda>result. io_bind (after_tool E g sz t result) (\<lambda>success.
             io_bind (cleanup E t) (\<lambda>_. io_return success))) w3 = (r, w')" by simp
      from rest show ?thesis
      proof (cases rule: io_bind_cases)
        case (raised e)
        from s3 run_emits [OF raised(1)]
        have "invocations (events_since w w')
            = invocations (events_since w w3) @ invocations (events_since w3 w')"
          by (rule invocations_since_trans)
        with s3 raised(1) have "invocations (events_since w w') = [(strip_cmd tp wfile, 30)]"
          by (simp add: silent_invocations run_events invocations_single)
        moreover from s3 run_emits [OF raised(1)] have "emits (\<lambda>e. True) w w'"
          by (blast intro: emits_trans silent_weaken)
        ultimately show ?thesis using wf by simp
      next
        case (returned res w4)
        have i4: "invocations (events_since w w4) = [(strip_cmd tp wfile, 30)]"
          using invocations_since_trans [OF s3 run_emits [OF returned(1)]] s3 returned(1)
          by (simp add: silent_invocations run_events invocations_single)
        have e4: "emits (\<lambda>e. True) w w4"
          using s3 run_emits [OF returned(1)] by (blast intro: emits_trans silent_weaken)
        have s5: "emits (\<lambda>e. \<not> is_run e) w4 w'"
          using returned(2)
        proof (cases rule: io_bind_cases)
          case (raised e)
          then show ?thesis by (blast intro: silent_after_tool)
        next
          case (returned success w5)
          note a = silent_after_tool [OF returned(1)]
          from returned(2) have "emits (\<lambda>e. \<not> is_run e) w5 w'"
            by (cases rule: io_bind_cases) (auto intro: silent_cleanup emits_trans emits_return)
          with a show ?thesis by (rule emits_trans)
        qed
        have "invocations (events_since w w') = [(strip_cmd tp wfile, 30)]"
          using invocations_since_trans [OF e4 s5] i4 s5 by (simp add: silent_invocations)
        moreover have "emits (\<lambda>e. True) w w'"
          using e4 s5 by (blast intro: emits_trans silent_weaken)
        ultimately show ?thesis using wf by simp
      qed
    qed
  qed
qed

lemma remove_exif_data_invocations:
  assumes "remove_exif_data E tp g fmt cb w = (r, w')"
  shows "invocations (events_since w w') = []
     \<or> invocations (events_since w w') = [(strip_cmd tp (working_file E g fmt), 30)]"
proof -
  obtain rb wb where b: "remove_exif_body E tp g fmt cb w = (rb, wb)" by force
  note i = remove_exif_body_invocations [OF b]
  have "emits (\<lambda>e. \<not> is_run e) wb w'"
    using assms b
    by (auto simp: remove_exif_data_def emits_refl intro: emits_log split: sum.splits exn.splits)
  with i invocations_since_trans [of "\<lambda>e. True" w wb "\<lambda>e. \<not> is_run e" w']
  show ?thesis by (auto simp: silent_invocations)
qed

text \<open>
  The four invocations the specification lists, with their timeouts: the version probe,
  the two queries, and the strip on the working file.
\<close>

definition specified_invocation :: "env \<Rightarrow> string list \<Rightarrow> nat \<Rightarrow> bool" where
  "specified_invocation E argv timeout =
     (\<exists>tool\<in>set (possible_paths E).
        (argv = [tool, ''-ver''] \<and> timeout = 5)
        \<or> (\<exists>path. argv = [tool, ''-s'', ''-s'', ''-s'', ''-FileType'', path] \<and> timeout = 10)
        \<or> (\<exists>path. argv = [tool, ''-s'', ''-s'', ''-s'', ''-EXIF:all'', path] \<and> timeout = 10)
        \<or> (\<exists>path fmt. argv = [tool, ''-overwrite_original'', ''-all='', ''-TagsFromFile'', ''@'',
                  ''-orientation'',
                  (if check_format_mismatch (os_nt E) path fmt then temp_path E path fmt
                   else path)]
              \<and> timeout = 30))"

fun specified :: "env \<Rightarrow> event \<Rightarrow> bool" where
  "specified E (Run argv timeout) = specified_invocation E argv timeout"
| "specified E e = True"

lemma specified_by_invocations:
  "list_all (specified E) evs \<longleftrightarrow>
     (\<forall>(argv, timeout)\<in>set (invocations evs). specified_invocation E argv timeout)"
proof (induction evs)
  case Nil
  then show ?case by (simp add: invocations_def)
next
  case (Cons e evs)
  then show ?case by (cases e) (simp_all add: invocations_def)
qed

lemma emits_specifiedI:
  assumes "emits (\<lambda>e. True) w w'"
    and "\<forall>(argv, timeout)\<in>set (invocations (events_since w w')). specified_invocation E argv timeout"
  shows "emits (specified E) w w'"
proof -
  from assms(1) have "trace w' = trace w @ events_since w w'" using emits_events by blast
  moreover from assms(2) have "list_all (specified E) (events_since w w')"
    by (simp add: specified_by_invocations)
  ultimately show ?thesis unfolding emits_def by blast
qed

lemma find_exiftool_specified:
  assumes "find_exiftool E w = (r, w')"
  shows "emits (specified E) w w'"
proof -
  from assms obtain k where "trace w' = trace w @ map (\<lambda>p. Run [p, ''-ver''] 5) (take k (possible_paths E))"
    unfolding find_exiftool_def using try_paths_trace by blast
  moreover have "list_all (specified E) (map (\<lambda>p. Run [p, ''-ver''] 5) (take k (possible_paths E)))"
    by (auto simp: list_all_iff specified_invocation_def dest: in_set_takeD)
  ultimately show ?thesis unfolding emits_def by blast
qed

lemma get_file_info_specified:
  assumes "get_file_info E tp f w = (r, w')" and "tp \<in> set (possible_paths E)"
  shows "emits (specified E) w w'"
proof -
  have "specified E (Run (filetype_query tp f) 10)" "specified E (Run (exif_query tp f) 10)"
    using assms(2) by (auto simp: specified_invocation_def filetype_query_def exif_query_def)
  with get_file_info_trace [OF assms(1)] show ?thesis
    unfolding emits_def by auto
qed

lemma inspect_files_specified:
  "inspect_files E tp fs a w = (r, w') \<Longrightarrow> tp \<in> set (possible_paths E) \<Longrightarrow>
     emits (specified E) w w'"
proof (induction fs arbitrary: a w)
  case Nil
  then show ?case by (simp add: emits_refl)
next
  case (Cons f fs)
  obtain ft ex err w1 where g: "get_file_info E tp f (log (Print (Checking f)) w) = ((ft, ex, err), w1)"
    by (metis prod.exhaust)
  have 1: "emits (specified E) w (log (Print (Checking f)) w)" by (simp add: emits_log)
  note 2 = get_file_info_specified [OF g Cons.prems(2)]
  show ?case
  proof (cases "truthy err")
    case True
    with Cons.prems(1) g
    have "inspect_files E tp fs a (log (Print (ProbeFailed f err)) w1) = (r, w')" by simp
    from Cons.IH [OF this Cons.prems(2)]
    have 3: "emits (specified E) (log (Print (ProbeFailed f err)) w1) w'" .
    have l: "emits (specified E) w1 (log (Print (ProbeFailed f err)) w1)"
      by (simp add: emits_log)
    show ?thesis by (rule emits_trans [OF emits_trans [OF emits_trans [OF 1 2] l] 3])
  next
    case False
    with Cons.prems(1) g obtain a1 where
      "inspect_files E tp fs a1
         (log (Print (Inspected f ft (check_format_mismatch (os_nt E) f ft) ex)) w1) = (r, w')"
      by (simp add: Let_def)
    from Cons.IH [OF this Cons.prems(2)]
    have 3: "emits (specified E)
        (log (Print (Inspected f ft (check_format_mismatch (os_nt E) f ft) ex)) w1) w'" .
    have l: "emits (specified E) w1
        (log (Print (Inspected f ft (check_format_mismatch (os_nt E) f ft) ex)) w1)"
      by (simp add: emits_log)
    show ?thesis by (rule emits_trans [OF emits_trans [OF emits_trans [OF 1 2] l] 3])
  qed
qed

lemma remove_exif_data_emits_any:
  assumes "remove_exif_data E tp g fmt cb w = (r, w')"
  shows "emits (\<lambda>e. True) w w'"
proof -
  obtain rb wb where b: "remove_exif_body E tp g fmt cb w = (rb, wb)" by force
  have "emits (\<lambda>e. True) wb w'"
    using assms b
    by (auto simp: remove_exif_data_def emits_refl intro: emits_log split: sum.splits exn.splits)
  moreover from remove_exif_body_invocations [OF b] have "emits (\<lambda>e. True) w wb" by simp
  ultimately show ?thesis by (rule emits_trans [rotated])
qed

lemma remove_exif_data_specified:
  assumes "remove_exif_data E tp g fmt cb w = (r, w')" and "tp \<in> set (possible_paths E)"
  shows "emits (specified E) w w'"
proof (rule emits_specifiedI [OF remove_exif_data_emits_any [OF assms(1)]])
  have "specified_invocation E (strip_cmd tp (working_file E g fmt)) 30"
    using assms(2) by (auto simp: specified_invocation_def strip_cmd_def working_file_def)
  with remove_exif_data_invocations [OF assms(1)]
  show "\<forall>(argv, timeout)\<in>set (invocations (events_since w w')). specified_invocation E argv timeout"
    by auto
qed

lemma process_files_specified:
  "process_files E tp cb fi fs counters w = (r, w') \<Longrightarrow> tp \<in> set (possible_paths E) \<Longrightarrow>
     emits (specified E) w w'"
proof (induction fs arbitrary: counters w)
  case Nil
  then show ?case by (simp add: emits_refl)
next
  case (Cons f fs)
  obtain processed failed total where c: "counters = (processed, failed, total)"
    by (cases counters) auto
  let ?w0 = "log (Print (Processing f)) w"
  have 0: "emits (specified E) w ?w0" by (simp add: emits_log)
  obtain r1 w1 where g1: "getsize E f ?w0 = (r1, w1)" by force
  have "emits (specified E) ?w0 w1" by (rule emits_getsize [OF g1]) simp
  with 0 have 1: "emits (specified E) w w1" by (rule emits_trans)
  show ?case
  proof (cases r1)
    case (Inl e)
    with Cons.prems(1) c g1 have "w' = w1" by simp
    with 1 show ?thesis by simp
  next
    case (Inr original_size)
    show ?thesis
    proof (cases "fi f")
      case None
      with Cons.prems(1) c g1 Inr have "w' = w1" by simp
      with 1 show ?thesis by simp
    next
      case (Some i)
      obtain ok w2 where d: "remove_exif_data E tp f (ftype i) cb w1 = (ok, w2)" by force
      have 2: "emits (specified E) w w2"
        using 1 remove_exif_data_specified [OF d Cons.prems(2)] by (rule emits_trans)
      show ?thesis
      proof (cases ok)
        case False
        with Cons.prems(1) c g1 Inr Some d
        have "process_files E tp cb fi fs (processed, failed + 1, total) w2 = (r, w')" by simp
        from Cons.IH [OF this Cons.prems(2)] 2 show ?thesis by (rule emits_trans [rotated])
      next
        case True
        obtain r3 w3 where g3: "getsize E f w2 = (r3, w3)" by force
        have "emits (specified E) w2 w3" by (rule emits_getsize [OF g3]) simp
        with 2 have 3: "emits (specified E) w w3" by (rule emits_trans)
        show ?thesis
        proof (cases r3)
          case (Inl e)
          with Cons.prems(1) c g1 Inr Some d True g3 have "w' = w3" by simp
          with 3 show ?thesis by simp
        next
          case new: (Inr new_size)
          with Cons.prems(1) c g1 Inr Some d True g3
          have "process_files E tp cb fi fs
              (processed + 1, failed, total + (new_size - original_size)) w3 = (r, w')" by simp
          from Cons.IH [OF this Cons.prems(2)] 3 show ?thesis by (rule emits_trans [rotated])
        qed
      qed
    qed
  qed
qed

lemma emits_ask_lines:
  "ask_lines rs w = (r, w') \<Longrightarrow> Q Input \<Longrightarrow> Q (Print Retry) \<Longrightarrow> emits Q w w'"
proof (induction rs arbitrary: w)
  case Nil
  then show ?case by (auto simp: emits_log)
next
  case (Cons a rs)
  let ?w1 = "log Input (w\<lparr>stdin := rs\<rparr>)"
  have 1: "emits Q w ?w1" using Cons.prems(2) by (simp add: emits_def log_def)
  show ?case
  proof (cases a)
    case Yes
    with Cons.prems(1) 1 show ?thesis by (auto simp: Let_def)
  next
    case No
    with Cons.prems(1) 1 show ?thesis by (auto simp: Let_def)
  next
    case Other
    with Cons.prems(1) have "ask_lines rs (log (Print Retry) ?w1) = (r, w')" by (simp add: Let_def)
    from Cons.IH [OF this Cons.prems(2,3)] have 3: "emits Q (log (Print Retry) ?w1) w'" .
    have 2: "emits Q ?w1 (log (Print Retry) ?w1)" using Cons.prems(3) by (rule emits_log)
    show ?thesis by (rule emits_trans [OF emits_trans [OF 1 2] 3])
  qed
qed

lemma emits_ask: "ask w = (r, w') \<Longrightarrow> Q Input \<Longrightarrow> Q (Print Retry) \<Longrightarrow> emits Q w w'"
  unfolding ask_def by (rule emits_ask_lines)

lemma process_phase_specified:
  assumes "process_phase E tp a w = (r, w')" and tp: "tp \<in> set (possible_paths E)"
  shows "emits (specified E) w w'"
  using assms(1) unfolding process_phase_def
  by (auto split: if_splits prod.splits
      elim!: emits_bind emits_print emits_wait_key emits_ask emits_return
        process_files_specified [OF _ tp])

text \<open>
  A stand-in for the external tool, found on the search path only. A file's content is
  its format name, followed by \<open>+\<close> and its metadata when it has any; stripping
  removes the metadata.
\<close>

definition newline :: char where
  "newline = CHR 0x0A"

definition example_tool ::
  "string list \<Rightarrow> nat \<Rightarrow> world \<Rightarrow> (exn + completed) \<times> (path, bytes) fmap" where
  "example_tool argv timeout w =
     (case argv of
        [p, a] \<Rightarrow>
          if p = ''exiftool.exe'' \<and> a = ''-ver''
          then (Inr \<lparr>returncode = 0, stdout = ''12.76'' @ [newline], stderr = []\<rparr>, files w)
          else (Inl (Exception ''FileNotFoundError''), files w)
      | [p, s1, s2, s3, q, f] \<Rightarrow>
          (case fmlookup (files w) f of
             None \<Rightarrow> (Inr \<lparr>returncode = 1, stdout = [], stderr = ''File not found''\<rparr>, files w)
           | Some b \<Rightarrow>
               if q = ''-FileType''
               then (Inr \<lparr>returncode = 0,
                          stdout = takeWhile (\<lambda>c. c \<noteq> CHR ''+'') b @ [newline],
                          stderr = []\<rparr>, files w)
               else (Inr \<lparr>returncode = 0, stdout = dropWhile (\<lambda>c. c \<noteq> CHR ''+'') b,
                          stderr = []\<rparr>, files w))
      | [p, a1, a2, a3, a4, a5, f] \<Rightarrow>
          if argv \<noteq> strip_cmd p f then (Inl (Exception ''usage''), files w)
          else
            (case fmlookup (files w) f of
               None \<Rightarrow>
                 (Inr \<lparr>returncode = 1, stdout = [], stderr = ''File not found''\<rparr>, files w)
             | Some b \<Rightarrow>
                 (Inr \<lparr>returncode = 0, stdout = ''1 image files updated'', stderr = []\<rparr>,
                  fmupd f (takeWhile (\<lambda>c. c \<noteq> CHR ''+'') b) (files w)))
      | _ \<Rightarrow> (Inl (Exception ''usage''), files w))"

text \<open>
  The end-to-end scenario of the specification: a JPEG with metadata and a PNG without,
  the user confirming the run and declining backups.
\<close>

definition two_files :: world where
  "two_files = example_world [(''photo.jpg'', ''JPEG+gps''), (''shot.png'', ''PNG'')] [Yes, No, Other]"

definition two_files_env :: env where
  "two_files_env = example_env True example_tool no_fault [''shot.png'', ''photo.jpg'']"

lemma emits_get_image_files:
  "get_image_files E w = (r, w') \<Longrightarrow> Q (Chdir (exe_directory E)) \<Longrightarrow> emits Q w w'"
  unfolding get_image_files_def
  by (erule emits_bind) (auto elim!: emits_chdir simp: emits_refl)

lemma find_exiftool_adopts:
  "find_exiftool E w = (Some (tp, v), w') \<Longrightarrow> tp \<in> set (possible_paths E)"
  unfolding find_exiftool_def by (rule try_paths_adopts)

lemma run_specified:
  assumes "run E w = (r, w')"
  shows "emits (specified E) w w'"
proof -
  let ?w0 = "log (Print Banner) w"
  have 0: "emits (specified E) w ?w0" by (simp add: emits_log)
  obtain loc w1 where f: "find_exiftool E ?w0 = (loc, w1)" by force
  note 1 = emits_trans [OF 0 find_exiftool_specified [OF f]]
  show ?thesis
  proof (cases loc)
    case None
    with assms f have "io_bind (print Guide) (\<lambda>_. wait_key) w1 = (r, w')"
      by (simp add: run_def)
    then have "emits (specified E) w1 w'"
      by (auto elim!: emits_bind emits_print emits_wait_key)
    with 1 show ?thesis by (rule emits_trans)
  next
    case (Some tv)
    obtain tp v where tv: "tv = (tp, v)" by (cases tv)
    from f Some tv have tp: "tp \<in> set (possible_paths E)" using find_exiftool_adopts by blast
    let ?w1 = "log (Print (ToolVersion v)) w1"
    have 2: "emits (specified E) w ?w1"
      using 1 by (rule emits_trans) (simp add: emits_log)
    obtain ri w2 where g: "get_image_files E ?w1 = (ri, w2)" by force
    have "emits (specified E) ?w1 w2" by (rule emits_get_image_files [OF g]) simp
    with 2 have 3: "emits (specified E) w w2" by (rule emits_trans)
    show ?thesis
    proof (cases ri)
      case (Inl e)
      with assms f Some tv g
      have "io_bind (print (CannotReadDir (str_exn e))) (\<lambda>_. wait_key) w2 = (r, w')"
        by (simp add: run_def)
      then have "emits (specified E) w2 w'"
        by (auto elim!: emits_bind emits_print emits_wait_key)
      with 3 show ?thesis by (rule emits_trans)
    next
      case (Inr image_files)
      show ?thesis
      proof (cases "image_files = []")
        case True
        with assms f Some tv g Inr
        have "io_bind (print NoImages) (\<lambda>_. wait_key) w2 = (r, w')"
          by (simp add: run_def)
        then have "emits (specified E) w2 w'"
          by (auto elim!: emits_bind emits_print emits_wait_key)
        with 3 show ?thesis by (rule emits_trans)
      next
        case False
        let ?w2 = "log (Print (Found (length image_files))) w2"
        obtain a w3 where i: "inspect_files E tp image_files no_analysis ?w2 = (a, w3)"
          by force
        with assms f Some tv g Inr False have p: "process_phase E tp a w3 = (r, w')"
          by (simp add: run_def)
        have "emits (specified E) w2 ?w2" by (simp add: emits_log)
        from emits_trans [OF emits_trans [OF emits_trans [OF 3 this]
              inspect_files_specified [OF i tp]] process_phase_specified [OF p tp]]
        show ?thesis .
      qed
    qed
  qed
qed

text \<open>
  C3. The tool locator issues version probes \<open>[tool, '-ver']\<close> with 5 seconds, for a
  prefix of the candidates in order. The inspector issues the file-type query, then
  possibly the EXIF query, each with 10 seconds. The stripper issues at most one
  invocation, the strip command with 30 seconds on the temporary copy when the extension
  mismatches the format and on the original path otherwise. Every invocation of a whole
  run is one of these four.
\<close>

theorem invocations_as_specified:
  "(\<forall>r w'. find_exiftool E w = (r, w') \<longrightarrow>
      (\<exists>k\<le>3. invocations (events_since w w')
         = map (\<lambda>exiftool. ([exiftool, ''-ver''], 5)) (take k (possible_paths E))))
   \<and> (\<forall>r w'. get_file_info E exiftool path w = (r, w') \<longrightarrow>
      invocations (events_since w w')
        = [([exiftool, ''-s'', ''-s'', ''-s'', ''-FileType'', path], 10)]
      \<or> invocations (events_since w w')
        = [([exiftool, ''-s'', ''-s'', ''-s'', ''-FileType'', path], 10),
           ([exiftool, ''-s'', ''-s'', ''-s'', ''-EXIF:all'', path], 10)])
   \<and> (\<forall>r w'. remove_exif_data E exiftool path fmt backup w = (r, w') \<longrightarrow>
      invocations (events_since w w') = []
      \<or> invocations (events_since w w')
        = [([exiftool, ''-overwrite_original'', ''-all='', ''-TagsFromFile'', ''@'', ''-orientation'',
             (if check_format_mismatch (os_nt E) path fmt then temp_path E path fmt else path)],
            30)])
   \<and> (\<forall>r w'. run E w = (r, w') \<longrightarrow>
      (\<forall>(argv, timeout)\<in>set (invocations (events_since w w')).
          specified_invocation E argv timeout))"
proof (intro conjI allI impI)
  fix r w' assume "find_exiftool E w = (r, w')"
  then obtain k where k: "k \<le> length (possible_paths E)"
    "trace w' = trace w @ map (\<lambda>p. Run [p, ''-ver''] 5) (take k (possible_paths E))"
    unfolding find_exiftool_def using try_paths_trace by blast
  have "invocations (map (\<lambda>p. Run [p, ''-ver''] 5) ps) = map (\<lambda>exiftool. ([exiftool, ''-ver''], 5)) ps"
    for ps by (induction ps) (simp_all add: invocations_def)
  with k show "\<exists>k\<le>3. invocations (events_since w w')
         = map (\<lambda>exiftool. ([exiftool, ''-ver''], 5)) (take k (possible_paths E))"
    by (intro exI [of _ k]) (simp add: events_since_def possible_paths_def)
next
  fix r w' assume "get_file_info E exiftool path w = (r, w')"
  from get_file_info_trace [OF this]
  show "invocations (events_since w w')
        = [([exiftool, ''-s'', ''-s'', ''-s'', ''-FileType'', path], 10)]
      \<or> invocations (events_since w w')
        = [([exiftool, ''-s'', ''-s'', ''-s'', ''-FileType'', path], 10),
           ([exiftool, ''-s'', ''-s'', ''-s'', ''-EXIF:all'', path], 10)]"
    by (auto simp: events_since_def invocations_def filetype_query_def exif_query_def)
next
  fix r w' assume "remove_exif_data E exiftool path fmt backup w = (r, w')"
  from remove_exif_data_invocations [OF this]
  show "invocations (events_since w w') = []
      \<or> invocations (events_since w w')
        = [([exiftool, ''-overwrite_original'', ''-all='', ''-TagsFromFile'', ''@'', ''-orientation'',
             (if check_format_mismatch (os_nt E) path fmt then temp_path E path fmt else path)],
            30)]"
    by (simp add: strip_cmd_def working_file_def)
next
  fix r w' assume "run E w = (r, w')"
  from run_specified [OF this] have "list_all (specified E) (events_since w w')"
    using emits_events by blast
  then show "\<forall>(argv, timeout)\<in>set (invocations (events_since w w')).
      specified_invocation E argv timeout"
    by (simp add: specified_by_invocations)
qed

theorem invocations_as_specified_witness:
  "([''exiftool.exe'', ''-overwrite_original'', ''-all='', ''-TagsFromFile'', ''@'',
      ''-orientation'', ''photo.jpg''], 30)
     \<in> set (invocations (events_since two_files (snd (run two_files_env two_files))))
   \<and> specified_invocation two_files_env
        [''exiftool.exe'', ''-overwrite_original'', ''-all='', ''-TagsFromFile'', ''@'',
         ''-orientation'', ''photo.jpg''] 30"
proof -
  have m: "([''exiftool.exe'', ''-overwrite_original'', ''-all='', ''-TagsFromFile'', ''@'',
      ''-orientation'', ''photo.jpg''], 30)
     \<in> set (invocations (events_since two_files (snd (run two_files_env two_files))))"
    by code_simp
  have "run two_files_env two_files
      = (fst (run two_files_env two_files), snd (run two_files_env two_files))" by simp
  with invocations_as_specified [of two_files_env two_files]
  have "\<forall>(argv, timeout)\<in>set (invocations (events_since two_files
      (snd (run two_files_env two_files)))). specified_invocation two_files_env argv timeout"
    by blast
  with m show ?thesis by blast
qed

section \<open>The tool locator (C10)\<close>

text \<open>
  A frame assumption on the external tool, used where a claim speaks of file contents:
  the tool changes a file only when it is invoked with the strip command on that file.
\<close>

definition tool_frame :: "env \<Rightarrow> bool" where
  "tool_frame E =
     (\<forall>argv timeout w p. (\<forall>exiftool. argv \<noteq> strip_cmd exiftool p) \<longrightarrow>
        fmlookup (snd (tool E argv timeout w)) p = fmlookup (files w) p)"

text \<open>The stand-in tool satisfies it.\<close>

lemma example_tool_frame:
  "\<forall>exiftool. argv \<noteq> strip_cmd exiftool q \<Longrightarrow>
     fmlookup (snd (example_tool argv timeout w)) q = fmlookup (files w) q"
  by (auto simp: example_tool_def split: list.splits option.splits if_splits)


text \<open>
  The locator in the words of the specification: the outcome of one version probe, the
  world after probing a list of candidates one after the other, and the statement that
  each of them fails in the world it is probed in.
\<close>

definition probe_ok :: "env \<Rightarrow> path \<Rightarrow> world \<Rightarrow> string option" where
  "probe_ok E p w =
     (case fst (subprocess_run E [p, ''-ver''] 5 w) of
        Inr result \<Rightarrow> if returncode result = 0 then Some (strip (stdout result)) else None
      | Inl e \<Rightarrow> None)"

fun probe_world :: "env \<Rightarrow> path list \<Rightarrow> world \<Rightarrow> world" where
  "probe_world E [] w = w"
| "probe_world E (p # ps) w = probe_world E ps (snd (subprocess_run E [p, ''-ver''] 5 w))"

fun all_fail :: "env \<Rightarrow> path list \<Rightarrow> world \<Rightarrow> bool" where
  "all_fail E [] w = True"
| "all_fail E (p # ps) w =
     (probe_ok E p w = None \<and> all_fail E ps (snd (subprocess_run E [p, ''-ver''] 5 w)))"

text \<open>The events of a run that touch no file: version probes, printing, reading a line.\<close>

fun is_probe_or_talk :: "event \<Rightarrow> bool" where
  "is_probe_or_talk (Run argv timeout) = (\<exists>p. argv = [p, ''-ver''] \<and> timeout = 5)"
| "is_probe_or_talk (Print m) = True"
| "is_probe_or_talk Input = True"
| "is_probe_or_talk e = False"

lemma probe_world_append: "probe_world E (ps @ qs) w = probe_world E qs (probe_world E ps w)"
  by (induction ps arbitrary: w) simp_all

lemma try_paths_found:
  "try_paths E ps w = (Some (p, v), w') \<Longrightarrow>
     \<exists>before after. ps = before @ p # after \<and> all_fail E before w
       \<and> probe_ok E p (probe_world E before w) = Some v
       \<and> w' = probe_world E (before @ [p]) w"
proof (induction ps arbitrary: w)
  case Nil
  then show ?case by simp
next
  case (Cons q ps)
  obtain r1 w1 where s: "subprocess_run E [q, ''-ver''] 5 w = (r1, w1)" by force
  show ?case
  proof (cases "probe_ok E q w")
    case None
    with Cons.prems s have "try_paths E ps w1 = (Some (p, v), w')"
      by (auto simp: probe_ok_def split: sum.splits if_splits)
    from Cons.IH [OF this] obtain before after where
      "ps = before @ p # after" "all_fail E before w1"
      "probe_ok E p (probe_world E before w1) = Some v"
      "w' = probe_world E (before @ [p]) w1" by blast
    with None s show ?thesis
      by (intro exI [of _ "q # before"] exI [of _ after]) simp
  next
    case (Some u)
    with Cons.prems s have "p = q \<and> v = u \<and> w' = w1"
      by (auto simp: probe_ok_def split: sum.splits if_splits)
    with Some s show ?thesis
      by (intro exI [of _ "[]"] exI [of _ ps]) simp
  qed
qed

lemma try_paths_not_found:
  "try_paths E ps w = (None, w') \<Longrightarrow> all_fail E ps w \<and> w' = probe_world E ps w"
proof (induction ps arbitrary: w)
  case Nil
  then show ?case by simp
next
  case (Cons q ps)
  obtain r1 w1 where s: "subprocess_run E [q, ''-ver''] 5 w = (r1, w1)" by force
  with Cons.prems have "probe_ok E q w = None \<and> try_paths E ps w1 = (None, w')"
    by (auto simp: probe_ok_def split: sum.splits if_splits)
  with Cons.IH [of w1] s show ?case by simp
qed

lemma tool_frame_probe:
  assumes "tool_frame E" and "subprocess_run E [p, ''-ver''] 5 w = (r, w')"
  shows "files w' = files w"
proof (rule fmap_ext)
  fix q
  have "\<forall>exiftool. [p, ''-ver''] \<noteq> strip_cmd exiftool q" by (simp add: strip_cmd_def)
  with assms(1) have "fmlookup (snd (tool E [p, ''-ver''] 5 w)) q = fmlookup (files w) q"
    unfolding tool_frame_def by blast
  with assms(2) show "fmlookup (files w') q = fmlookup (files w) q"
    by (auto simp: subprocess_run_def log_def split: prod.splits)
qed

lemma tool_frame_probe_world: "tool_frame E \<Longrightarrow> files (probe_world E ps w) = files w"
proof (induction ps arbitrary: w)
  case Nil
  then show ?case by simp
next
  case (Cons p ps)
  have "files (snd (subprocess_run E [p, ''-ver''] 5 w)) = files w"
    using tool_frame_probe [OF Cons.prems] by (metis prod.collapse)
  with Cons.IH [OF Cons.prems] show ?case by simp
qed

lemma probes_only:
  assumes "find_exiftool E w = (r, w')"
  shows "emits is_probe_or_talk w w'"
proof -
  from assms obtain k where "trace w' = trace w @ map (\<lambda>p. Run [p, ''-ver''] 5) (take k (possible_paths E))"
    unfolding find_exiftool_def using try_paths_trace by blast
  moreover have "list_all is_probe_or_talk (map (\<lambda>p. Run [p, ''-ver''] 5) (take k (possible_paths E)))"
    by (simp add: list_all_iff)
  ultimately show ?thesis unfolding emits_def by blast
qed

lemma files_log [simp]: "files (log e w) = files w"
  by (simp add: log_def)

lemma guide_and_wait:
  assumes "io_bind (print Guide) (\<lambda>_. wait_key) w = (r, w')"
  shows "events_since w w' = [Print Guide, Input] \<and> files w' = files w"
  using assms
  by (auto simp: wait_key_def events_since_def prim_defs split: list.splits)

text \<open>
  C10. The candidates are tried in the fixed order program directory/exiftool.exe,
  program directory/exiftool(-k).exe, exiftool.exe. The locator adopts the first
  candidate whose probe exits 0, with its stripped output as version, every candidate
  before it having failed (non-zero exit or exception) in the world it was probed in;
  it reports not-found when all fail. In that case the run only prints the guidance
  and waits for a key: besides the probes it prints and reads, and the program itself
  changes no file (nor does the tool, under the frame assumption).
\<close>

theorem locator_first_success:
  "possible_paths E =
      [join (os_nt E) (exe_directory E) ''exiftool.exe'',
       join (os_nt E) (exe_directory E) ''exiftool(-k).exe'',
       ''exiftool.exe'']
   \<and> (\<forall>p v w'. find_exiftool E w = (Some (p, v), w') \<longrightarrow>
        (\<exists>before after. possible_paths E = before @ p # after
           \<and> all_fail E before w
           \<and> probe_ok E p (probe_world E before w) = Some v
           \<and> w' = probe_world E (before @ [p]) w))
   \<and> (\<forall>w'. find_exiftool E w = (None, w') \<longrightarrow>
        all_fail E (possible_paths E) w \<and> w' = probe_world E (possible_paths E) w)
   \<and> (\<forall>w1 r w'. find_exiftool E (log (Print Banner) w) = (None, w1) \<longrightarrow>
        run E w = (r, w') \<longrightarrow>
          events_since w1 w' = [Print Guide, Input]
          \<and> list_all is_probe_or_talk (events_since w w')
          \<and> files w' = files w1
          \<and> (tool_frame E \<longrightarrow> files w' = files w))"
proof (intro conjI allI impI)
  show "possible_paths E =
      [join (os_nt E) (exe_directory E) ''exiftool.exe'',
       join (os_nt E) (exe_directory E) ''exiftool(-k).exe'',
       ''exiftool.exe'']"
    by (simp add: possible_paths_def)
next
  fix p v w' assume "find_exiftool E w = (Some (p, v), w')"
  then show "\<exists>before after. possible_paths E = before @ p # after
           \<and> all_fail E before w
           \<and> probe_ok E p (probe_world E before w) = Some v
           \<and> w' = probe_world E (before @ [p]) w"
    unfolding find_exiftool_def by (rule try_paths_found)
next
  fix w' assume f: "find_exiftool E w = (None, w')"
  then show "all_fail E (possible_paths E) w" "w' = probe_world E (possible_paths E) w"
    unfolding find_exiftool_def using try_paths_not_found by blast+
next
  fix w1 r w'
  assume f: "find_exiftool E (log (Print Banner) w) = (None, w1)" and r: "run E w = (r, w')"
  from f r have g: "io_bind (print Guide) (\<lambda>_. wait_key) w1 = (r, w')"
    by (simp add: run_def)
  note gw = guide_and_wait [OF g]
  from gw show "events_since w1 w' = [Print Guide, Input]" by simp
  from gw show "files w' = files w1" by simp
  have 0: "emits is_probe_or_talk w (log (Print Banner) w)" by (simp add: emits_log)
  have 2: "emits is_probe_or_talk w1 w'"
    using g by (auto elim!: emits_bind emits_print emits_wait_key)
  from emits_trans [OF emits_trans [OF 0 probes_only [OF f]] 2]
  show "list_all is_probe_or_talk (events_since w w')" using emits_events by blast
  show "files w' = files w" if "tool_frame E"
  proof -
    from f have "w1 = probe_world E (possible_paths E) (log (Print Banner) w)"
      unfolding find_exiftool_def using try_paths_not_found by blast
    with that have "files w1 = files w" by (simp add: tool_frame_probe_world)
    with gw show ?thesis by simp
  qed
qed

text \<open>A directory with a picture and no tool anywhere.\<close>

definition no_tool_world :: world where
  "no_tool_world = example_world [(''photo.jpg'', ''JPEG+gps'')] [Other]"

definition no_tool_env :: env where
  "no_tool_env = example_env True idle_tool no_fault [''photo.jpg'']"

theorem locator_first_success_witness:
  "fst (find_exiftool no_tool_env (log (Print Banner) no_tool_world)) = None
   \<and> events_since (snd (find_exiftool no_tool_env (log (Print Banner) no_tool_world)))
        (snd (run no_tool_env no_tool_world)) = [Print Guide, Input]
   \<and> tool_frame no_tool_env
   \<and> files (snd (run no_tool_env no_tool_world)) = files no_tool_world
   \<and> fst (find_exiftool two_files_env two_files) = Some (''exiftool.exe'', ''12.76'')
   \<and> (\<exists>before after. possible_paths two_files_env = before @ ''exiftool.exe'' # after
         \<and> all_fail two_files_env before two_files
         \<and> probe_ok two_files_env ''exiftool.exe''
              (probe_world two_files_env before two_files) = Some ''12.76'')"
proof -
  let ?w0 = "log (Print Banner) no_tool_world"
  have n: "fst (find_exiftool no_tool_env ?w0) = None" by code_simp
  then have f: "find_exiftool no_tool_env ?w0 = (None, snd (find_exiftool no_tool_env ?w0))"
    by (metis prod.collapse)
  have r: "run no_tool_env no_tool_world
      = (fst (run no_tool_env no_tool_world), snd (run no_tool_env no_tool_world))" by simp
  have tf: "tool_frame no_tool_env"
    by (simp add: tool_frame_def no_tool_env_def example_env_def idle_tool_def)
  note t = locator_first_success [of no_tool_env no_tool_world]
  from t f r have 1: "events_since (snd (find_exiftool no_tool_env ?w0))
        (snd (run no_tool_env no_tool_world)) = [Print Guide, Input]" by blast
  from t f r tf have 2: "files (snd (run no_tool_env no_tool_world)) = files no_tool_world"
    by blast
  have s: "fst (find_exiftool two_files_env two_files) = Some (''exiftool.exe'', ''12.76'')"
    by code_simp
  then have f2: "find_exiftool two_files_env two_files
      = (Some (''exiftool.exe'', ''12.76''), snd (find_exiftool two_files_env two_files))"
    by (metis prod.collapse)
  from locator_first_success [of two_files_env two_files] f2
  have 3: "\<exists>before after. possible_paths two_files_env = before @ ''exiftool.exe'' # after
         \<and> all_fail two_files_env before two_files
         \<and> probe_ok two_files_env ''exiftool.exe''
              (probe_world two_files_env before two_files) = Some ''12.76''" by blast
  from n 1 tf 2 s 3 show ?thesis by blast
qed

section \<open>The temporary copy (C4, C5, C2)\<close>

lemma rfind_drop:
  "0 \<le> rfind P p \<Longrightarrow>
     \<exists>c e. drop (nat (rfind P p)) p = c # e \<and> P c \<and> (\<forall>x\<in>set e. \<not> P x)"
proof (induction p)
  case Nil
  then show ?case by simp
next
  case (Cons a p)
  show ?case
  proof (cases "0 \<le> rfind P p")
    case True
    then have "nat (rfind P (a # p)) = Suc (nat (rfind P p))" by (simp add: Let_def nat_add_distrib)
    with Cons.IH [OF True] show ?thesis by simp
  next
    case False
    with Cons.prems have pa: "P a" and z: "rfind P (a # p) = 0"
      by (auto simp: Let_def split: if_splits)
    from False rfind_bounds [of P p] have "rfind P p = - 1" by simp
    have "\<forall>x\<in>set p. \<not> P x"
    proof (rule ccontr)
      assume "\<not> (\<forall>x\<in>set p. \<not> P x)"
      then obtain x where "x \<in> set p" "P x" by blast
      then have "0 \<le> rfind P p" by (induction p) (auto simp: Let_def)
      with False show False by simp
    qed
    with pa z show ?thesis by simp
  qed
qed

lemma splitext_snd_shape:
  "snd (splitext nt p) = [] \<or> (\<exists>e. snd (splitext nt p) = CHR ''.'' # e \<and> CHR ''.'' \<notin> set e)"
proof (cases "snd (splitext nt p) = []")
  case True
  then show ?thesis by simp
next
  case False
  then have s: "snd (splitext nt p) = drop (nat (rfind (\<lambda>c. c = CHR ''.'') p)) p"
    and "rfind (\<lambda>c. c \<in> set (seps nt)) p < rfind (\<lambda>c. c = CHR ''.'') p"
    by (auto simp: splitext_def Let_def split: if_splits)
  with rfind_bounds [of "\<lambda>c. c \<in> set (seps nt)" p] have "0 \<le> rfind (\<lambda>c. c = CHR ''.'') p"
    by simp
  from rfind_drop [OF this] s show ?thesis by auto
qed

text \<open>The part of a path after its last dot, reversed.\<close>

definition last_part :: "string \<Rightarrow> string" where
  "last_part x = takeWhile (\<lambda>c. c \<noteq> CHR ''.'') (rev x)"

lemma last_part_ext: "CHR ''.'' \<notin> set e \<Longrightarrow> last_part (a @ CHR ''.'' # e) = rev e"
proof -
  assume "CHR ''.'' \<notin> set e"
  then have "\<And>x. x \<in> set (rev e) \<Longrightarrow> x \<noteq> CHR ''.''" by auto
  then have "takeWhile (\<lambda>c. c \<noteq> CHR ''.'') (rev e @ CHR ''.'' # rev a) = rev e"
    by (simp add: takeWhile_tail)
  then show ?thesis by (simp add: last_part_def)
qed

lemma last_part_plain: "CHR ''.'' \<notin> set s \<Longrightarrow> last_part (a @ s) = rev s @ last_part a"
proof -
  assume "CHR ''.'' \<notin> set s"
  then have "\<And>x. x \<in> set (rev s) \<Longrightarrow> x \<noteq> CHR ''.''" by auto
  then have "takeWhile (\<lambda>c. c \<noteq> CHR ''.'') (rev s @ rev a)
      = rev s @ takeWhile (\<lambda>c. c \<noteq> CHR ''.'') (rev a)"
    by (rule takeWhile_append2)
  then show ?thesis by (simp add: last_part_def)
qed

lemma backup_path_shape:
  "\<exists>s. backup_path_for E p w = fst (splitext (os_nt E) p) @ s @ snd (splitext (os_nt E) p)
     \<and> CHR ''.'' \<notin> set s \<and> CHR ''_'' \<in> set s"
proof -
  obtain name ext where ne: "splitext (os_nt E) p = (name, ext)" by force
  have clean: "CHR ''.'' \<notin> set (str_nat k)" for k using str_nat_clean by blast
  show ?thesis
  proof (cases "exists w (backup_name name ext)")
    case False
    then have "backup_path_for E p w = name @ ''_backup'' @ ext"
      by (simp add: backup_path_for_def ne find_backup_free backup_name_def)
    then show ?thesis by (intro exI [of _ "''_backup''"]) (simp add: ne)
  next
    case True
    from find_backup_taken [OF True, of 1 name ext] obtain k where
      "backup_path_for E p w = name @ (''_backup_'' @ str_nat k) @ ext"
      by (auto simp: backup_path_for_def ne backup_name_k_def)
    then show ?thesis using clean [of k]
      by (intro exI [of _ "''_backup_'' @ str_nat k"]) (simp add: ne)
  qed
qed

lemma temp_path_shape:
  "\<exists>a c. temp_path E p fmt = a @ CHR ''.'' # c \<and> get_correct_extension fmt = CHR ''.'' # c
     \<and> CHR ''.'' \<notin> set c \<and> CHR ''_'' \<notin> set c"
proof -
  have "get_correct_extension fmt \<in> {''.jpg'', ''.png'', ''.tiff'', ''.webp'', ''.bmp'', ''.tmp''}"
    by (rule get_correct_extension_cases)
  then obtain c where c: "get_correct_extension fmt = CHR ''.'' # c"
    "CHR ''.'' \<notin> set c" "CHR ''_'' \<notin> set c" by auto
  have "temp_path E p fmt
      = (if tempdir E = [] \<or> last (tempdir E) \<in> set (seps (os_nt E)) then tempdir E
         else tempdir E @ [sep (os_nt E)]) @ temp_stem E p @ get_correct_extension fmt"
    by (simp add: temp_path_def join_prefix temp_name_stem)
  with c show ?thesis by (metis append.assoc)
qed

lemma lower_canonical:
  "fmt \<in> set supported_types \<Longrightarrow>
     get_correct_extension (Some fmt) = canonical_extension fmt
     \<and> lower (canonical_extension fmt) \<in> set (canonical_extensions fmt)"
proof -
  have "\<forall>f\<in>set supported_types. get_correct_extension (Some f) = canonical_extension f
     \<and> lower (canonical_extension f) \<in> set (canonical_extensions f)" by code_simp
  then show "fmt \<in> set supported_types \<Longrightarrow>
     get_correct_extension (Some fmt) = canonical_extension fmt
     \<and> lower (canonical_extension fmt) \<in> set (canonical_extensions fmt)" by blast
qed

lemma mismatch_supported:
  "check_format_mismatch nt p fmt \<Longrightarrow>
     \<exists>f. fmt = Some f \<and> f \<in> set supported_types
       \<and> lower (snd (splitext nt p)) \<notin> set (canonical_extensions f)"
  by (cases fmt) (auto simp: supported_types_def canonical_extensions_def Let_def split: if_splits)

lemma temp_path_no_mismatch: "\<not> check_format_mismatch (os_nt E) (temp_path E p fmt) fmt"
proof
  assume "check_format_mismatch (os_nt E) (temp_path E p fmt) fmt"
  from mismatch_supported [OF this] obtain f where f: "fmt = Some f" "f \<in> set supported_types"
    "lower (snd (splitext (os_nt E) (temp_path E p fmt))) \<notin> set (canonical_extensions f)"
    by blast
  with lower_canonical [OF f(2)] show False by (simp add: splitext_temp_path)
qed

lemma temp_path_not_original:
  "check_format_mismatch (os_nt E) p fmt \<Longrightarrow> temp_path E p fmt \<noteq> p"
  using temp_path_no_mismatch [of E p fmt] by auto

lemma temp_path_not_backup:
  assumes "check_format_mismatch (os_nt E) p fmt"
  shows "temp_path E p fmt \<noteq> backup_path_for E p w"
proof
  assume eq: "temp_path E p fmt = backup_path_for E p w"
  from mismatch_supported [OF assms] obtain f where f: "fmt = Some f" "f \<in> set supported_types"
    "lower (snd (splitext (os_nt E) p)) \<notin> set (canonical_extensions f)" by blast
  obtain a c where t: "temp_path E p fmt = a @ CHR ''.'' # c"
    "get_correct_extension fmt = CHR ''.'' # c" "CHR ''.'' \<notin> set c" "CHR ''_'' \<notin> set c"
    using temp_path_shape by blast
  obtain s where b: "backup_path_for E p w
      = fst (splitext (os_nt E) p) @ s @ snd (splitext (os_nt E) p)"
    "CHR ''.'' \<notin> set s" "CHR ''_'' \<in> set s"
    using backup_path_shape by blast
  have lt: "last_part (temp_path E p fmt) = rev c" using t by (simp add: last_part_ext)
  from splitext_snd_shape [of "os_nt E" p] show False
  proof
    assume e: "snd (splitext (os_nt E) p) = []"
    with b have "last_part (backup_path_for E p w)
        = rev s @ last_part (fst (splitext (os_nt E) p))"
      by (simp add: last_part_plain)
    with eq lt have "rev c = rev s @ last_part (fst (splitext (os_nt E) p))" by simp
    then have "set s \<subseteq> set c" by (metis set_rev set_append Un_upper1)
    with b(3) t(4) show False by blast
  next
    assume "\<exists>e. snd (splitext (os_nt E) p) = CHR ''.'' # e \<and> CHR ''.'' \<notin> set e"
    then obtain e where e: "snd (splitext (os_nt E) p) = CHR ''.'' # e" "CHR ''.'' \<notin> set e"
      by blast
    with b have "last_part (backup_path_for E p w) = rev e"
      by (metis append.assoc last_part_ext)
    with eq lt have "e = c" by simp
    with e t(2) have "snd (splitext (os_nt E) p) = get_correct_extension fmt" by simp
    with f lower_canonical [OF f(2)] show False by simp
  qed
qed

lemma getsize_step:
  "getsize E p w = (r, w') \<Longrightarrow>
     trace w' = trace w @ [Getsize p] \<and> files w' = files w \<and> stdin w' = stdin w
     \<and> (\<forall>n. r = Inr n \<longrightarrow> exists w p)"
  by (auto simp: exists_def prim_defs split: option.splits)

lemma find_backup_files_cong:
  "files w1 = files w \<Longrightarrow> find_backup w1 name ext c bp = find_backup w name ext c bp"
proof (induction w name ext c bp rule: find_backup.induct)
  case (1 w name ext counter backup_path)
  have e: "exists w1 q = exists w q" for q using "1.prems" by (simp add: exists_def)
  show ?case
  proof (cases "exists w backup_path")
    case True
    with "1.IH" [OF True "1.prems"] e show ?thesis
      by (subst find_backup.simps, subst (2) find_backup.simps) simp
  next
    case False
    with e show ?thesis by (simp add: find_backup_free)
  qed
qed

lemma backup_path_for_files_cong:
  "files w1 = files w \<Longrightarrow> backup_path_for E p w1 = backup_path_for E p w"
  using find_backup_files_cong [of w1 w] by (simp add: backup_path_for_def split: prod.splits)

lemma make_backup_ok:
  "make_backup E p w = (Inr u, w') \<Longrightarrow>
     trace w' = trace w @ [Copy2 p (backup_path_for E p w),
                           Print (BackupAt (backup_path_for E p w))]
     \<and> (\<exists>b. fmlookup (files w) p = Some b
            \<and> files w' = fmupd (backup_path_for E p w) b (files w))"
  by (auto simp: make_backup_def prim_defs split: option.splits if_splits sum.splits prod.splits)

lemma choose_working_ok:
  "check_format_mismatch (os_nt E) p fmt \<Longrightarrow> choose_working E p fmt w = (Inr cw, w') \<Longrightarrow>
     cw = (Some (temp_path E p fmt), temp_path E p fmt)
     \<and> trace w' = trace w @ [Copy2 p (temp_path E p fmt), Print UsingTemp]
     \<and> (\<exists>b. fmlookup (files w) p = Some b
            \<and> files w' = fmupd (temp_path E p fmt) b (files w))"
  by (auto simp: choose_working_def prim_defs split: option.splits if_splits sum.splits prod.splits)

lemma run_step:
  "subprocess_run E argv t w = (r, w') \<Longrightarrow>
     trace w' = trace w @ [Run argv t] \<and> files w' = snd (tool E argv t w)
     \<and> r = fst (tool E argv t w)"
  by (auto simp: prim_defs split: prod.splits)

lemma after_tool_failed:
  assumes "returncode res \<noteq> 0" and "after_tool E p sz t res w = (r, w')"
  shows "r = Inr False \<and> (\<exists>m. trace w' = trace w @ [Print m]) \<and> files w' = files w"
proof (cases "strip (stderr res) = []")
  case True
  with assms show ?thesis
    by (auto simp: after_tool_def io_bind_def io_return_def print_def log_def)
next
  case False
  with assms show ?thesis
    by (auto simp: after_tool_def io_bind_def io_return_def print_def log_def)
qed

lemma cleanup_step:
  "cleanup E (Some t) w = (r, w') \<Longrightarrow>
     r = Inr ()
     \<and> (trace w' = trace w \<and> files w' = files w
        \<or> trace w' = trace w @ [Remove t]
           \<and> (files w' = files w \<or> files w' = fmdrop t (files w)))"
  by (auto simp: cleanup_def temp_present_def prim_defs split: option.splits if_splits)

lemma tool_frame_strip:
  assumes "tool_frame E" and "q \<noteq> target"
  shows "fmlookup (snd (tool E (strip_cmd exiftool target) timeout w)) q = fmlookup (files w) q"
proof -
  have "\<forall>x. strip_cmd exiftool target \<noteq> strip_cmd x q" using assms(2) by (simp add: strip_cmd_def)
  with assms(1) show ?thesis unfolding tool_frame_def by blast
qed

text \<open>
  Lines 128 to 156 of \<open>remove_exif_data\<close>, all that precedes the call of the tool: the
  size of the original, the backup when one is requested, and the choice of the working
  file. The world it leaves is the world the tool is called in.
\<close>

definition prepare :: "env \<Rightarrow> path \<Rightarrow> string option \<Rightarrow> bool \<Rightarrow> (int \<times> path option \<times> path) io" where
  "prepare E file_path actual_format create_backup =
     io_bind (getsize E file_path) (\<lambda>original_size.
     io_bind (if create_backup then make_backup E file_path else io_return ()) (\<lambda>_.
     io_bind (choose_working E file_path actual_format) (\<lambda>(temp_file, wfile).
     io_return (original_size, temp_file, wfile))))"

text \<open>The body of the stripper is this preparation followed by the call and what follows it.\<close>

lemma body_prepare:
  "remove_exif_body E exiftool p fmt backup w =
     io_bind (prepare E p fmt backup) (\<lambda>(original_size, temp_file, wfile).
     io_bind (subprocess_run E (strip_cmd exiftool wfile) 30) (\<lambda>result.
     io_bind (after_tool E p original_size temp_file result) (\<lambda>success.
     io_bind (cleanup E temp_file) (\<lambda>_.
     io_return success)))) w"
  by (simp add: remove_exif_body_def prepare_def io_bind_def io_return_def
      split: prod.splits sum.splits)

lemma prepare_ok:
  assumes mm: "check_format_mismatch (os_nt E) p fmt"
    and reach: "prepare E p fmt backup w = (Inr prep, w3)"
  obtains sz b where
    "prep = (sz, Some (temp_path E p fmt), temp_path E p fmt)"
    "trace w3 = trace w @ Getsize p
       # (if backup then [Copy2 p (backup_path_for E p w),
                          Print (BackupAt (backup_path_for E p w))] else [])
       @ [Copy2 p (temp_path E p fmt), Print UsingTemp]"
    "fmlookup (files w) p = Some b"
    "files w3 = fmupd (temp_path E p fmt) b
       (if backup then fmupd (backup_path_for E p w) b (files w) else files w)"
proof -
  let ?t = "temp_path E p fmt"
  let ?bp = "backup_path_for E p w"
  from reach [unfolded prepare_def] obtain sz w1 where g: "getsize E p w = (Inr sz, w1)"
    and rest1: "io_bind (if backup then make_backup E p else io_return ()) (\<lambda>_.
       io_bind (choose_working E p fmt) (\<lambda>(temp_file, wfile).
       io_return (sz, temp_file, wfile))) w1 = (Inr prep, w3)"
    by (cases rule: io_bind_cases) auto
  note g1 = getsize_step [OF g]
  then have ex: "exists w p" by simp
  then have pb: "p \<noteq> ?bp" using backup_path_for_fresh [of w E p] by auto
  from ex obtain b where b: "fmlookup (files w) p = Some b" by (auto simp: exists_def)
  from rest1 obtain u w2 where m: "(if backup then make_backup E p else io_return ()) w1 = (Inr u, w2)"
    and rest2: "io_bind (choose_working E p fmt) (\<lambda>(temp_file, wfile).
       io_return (sz, temp_file, wfile)) w2 = (Inr prep, w3)"
    by (cases rule: io_bind_cases) auto
  have bp1: "backup_path_for E p w1 = ?bp"
    using g1 backup_path_for_files_cong [of w1 w E p] by simp
  have t2: "trace w2 = trace w @ Getsize p
      # (if backup then [Copy2 p ?bp, Print (BackupAt ?bp)] else [])"
    and f2: "files w2 = (if backup then fmupd ?bp b (files w) else files w)"
    using m g1 b make_backup_ok [of E p w1 u w2] bp1
    by (auto simp: io_return_def split: if_splits)
  from rest2 obtain cw w3' where c: "choose_working E p fmt w2 = (Inr cw, w3')"
    and rest3: "(case cw of (temp_file, wfile) \<Rightarrow>
       io_return (sz, temp_file, wfile)) w3' = (Inr prep, w3)"
    by (cases rule: io_bind_cases) auto
  from choose_working_ok [OF mm c]
  have cw: "cw = (Some ?t, ?t)"
    and t3: "trace w3' = trace w2 @ [Copy2 p ?t, Print UsingTemp]"
    and f3: "\<exists>b'. fmlookup (files w2) p = Some b' \<and> files w3' = fmupd ?t b' (files w2)"
    by blast+
  from rest3 cw have prep: "prep = (sz, Some ?t, ?t)" and w3: "w3 = w3'"
    by (simp_all add: io_return_def)
  have p2: "fmlookup (files w2) p = Some b" using f2 b pb by auto
  with f3 have f3': "files w3 = fmupd ?t b (files w2)" by (auto simp: w3)
  show ?thesis
  proof (rule that [OF prep _ b])
    show "trace w3 = trace w @ Getsize p
       # (if backup then [Copy2 p ?bp, Print (BackupAt ?bp)] else []) @ [Copy2 p ?t, Print UsingTemp]"
      using t2 t3 by (simp add: w3)
    show "files w3 = fmupd ?t b (if backup then fmupd ?bp b (files w) else files w)"
      using f3' f2 by simp
  qed
qed

lemma choose_working_total:
  assumes mm: "check_format_mismatch (os_nt E) p fmt"
    and b: "fmlookup (files w) p = Some b"
    and nf: "fault E (Copy2 p (temp_path E p fmt)) w = None"
  shows "\<exists>w'. choose_working E p fmt w
            = (Inr (Some (temp_path E p fmt), temp_path E p fmt), w')
          \<and> files w' = fmupd (temp_path E p fmt) b (files w)
          \<and> trace w' = trace w @ [Copy2 p (temp_path E p fmt), Print UsingTemp]"
  using mm b nf temp_path_not_original [OF mm]
  by (simp add: choose_working_def prim_defs)

lemma make_backup_total:
  assumes b: "fmlookup (files w) p = Some b"
    and nf: "fault E (Copy2 p (backup_path_for E p w)) w = None"
  shows "\<exists>w'. make_backup E p w = (Inr (), w')
          \<and> files w' = fmupd (backup_path_for E p w) b (files w)"
proof -
  from b have "exists w p" by (simp add: exists_def)
  then have "p \<noteq> backup_path_for E p w" using backup_path_for_fresh [of w E p] by auto
  with b nf show ?thesis by (simp add: make_backup_def prim_defs)
qed

lemma prepare_total:
  assumes mm: "check_format_mismatch (os_nt E) p fmt"
    and nf: "\<forall>e w0. fault E e w0 = None"
    and b: "fmlookup (files w) p = Some b"
  shows "\<exists>prep w3. prepare E p fmt backup w = (Inr prep, w3)"
proof -
  let ?w1 = "log (Getsize p) w"
  have g: "getsize E p w = (Inr (int (length b)), ?w1)"
    using nf b by (simp add: getsize_def Let_def)
  have b1: "fmlookup (files ?w1) p = Some b" using b by (simp add: log_def)
  obtain w2 where m: "(if backup then make_backup E p else io_return ()) ?w1 = (Inr (), w2)"
    and b2: "fmlookup (files w2) p = Some b"
  proof (cases backup)
    case True
    from b1 have "exists ?w1 p" by (simp add: exists_def)
    then have ne: "p \<noteq> backup_path_for E p ?w1" using backup_path_for_fresh [of ?w1 E p] by auto
    from make_backup_total [OF b1, of E] nf obtain w2 where
      "make_backup E p ?w1 = (Inr (), w2)"
      "files w2 = fmupd (backup_path_for E p ?w1) b (files ?w1)" by auto
    with True ne b1 show ?thesis by (intro that [of w2]) simp_all
  next
    case False
    with b1 show ?thesis by (intro that [of ?w1]) (simp_all add: io_return_def)
  qed
  from choose_working_total [OF mm b2] nf obtain w3 where
    c: "choose_working E p fmt w2 = (Inr (Some (temp_path E p fmt), temp_path E p fmt), w3)"
    by auto
  from g m c show ?thesis by (simp add: prepare_def io_bind_def io_return_def)
qed

lemma strip_on_copy:
  assumes mm: "check_format_mismatch (os_nt E) p fmt"
    and reach: "prepare E p fmt backup w = (Inr prep, w3)"
    and rd: "remove_exif_data E exiftool p fmt backup w = (ok, w')"
  shows "\<exists>rest. events_since w w'
          = Getsize p
            # (if backup then [Copy2 p (backup_path_for E p w),
                               Print (BackupAt (backup_path_for E p w))] else [])
            @ [Copy2 p (temp_path E p fmt), Print UsingTemp,
               Run (strip_cmd exiftool (temp_path E p fmt)) 30] @ rest
        \<and> list_all (\<lambda>e. \<not> is_run e) rest"
proof -
  let ?t = "temp_path E p fmt"
  let ?bp = "backup_path_for E p w"
  let ?cmd = "strip_cmd exiftool ?t"
  let ?Q = "\<lambda>e. \<not> is_run e"
  from prepare_ok [OF mm reach] obtain sz b where prep: "prep = (sz, Some ?t, ?t)"
    and t3: "trace w3 = trace w @ Getsize p
       # (if backup then [Copy2 p ?bp, Print (BackupAt ?bp)] else [])
       @ [Copy2 p ?t, Print UsingTemp]"
    by blast
  obtain rb wb where body: "remove_exif_body E exiftool p fmt backup w = (rb, wb)" by force
  from body reach prep have rest3:
    "io_bind (subprocess_run E ?cmd 30) (\<lambda>result.
     io_bind (after_tool E p sz (Some ?t) result) (\<lambda>success.
     io_bind (cleanup E (Some ?t)) (\<lambda>_. io_return success))) w3 = (rb, wb)"
    by (simp add: body_prepare io_bind_def)
  have tail_silent: "emits ?Q wb w'"
    using rd body
    by (auto simp: remove_exif_data_def emits_refl intro: emits_log split: sum.splits exn.splits)
  obtain r4 w4 where run: "subprocess_run E ?cmd 30 w3 = (r4, w4)" by force
  have t4: "trace w4 = trace w3 @ [Run ?cmd 30]" using run by (rule run_trace)
  have after: "emits ?Q w4 wb"
    using rest3
  proof (cases rule: io_bind_cases)
    case (raised e)
    with run show ?thesis by (simp add: emits_refl)
  next
    case (returned c w4')
    with run have k: "io_bind (after_tool E p sz (Some ?t) c) (\<lambda>success.
       io_bind (cleanup E (Some ?t)) (\<lambda>_. io_return success)) w4 = (rb, wb)" by simp
    show ?thesis
      by (rule emits_bind [OF k])
        (auto elim!: silent_after_tool emits_bind silent_cleanup emits_return)
  qed
  from emits_trans [OF after tail_silent] have "emits ?Q w4 w'" .
  then obtain rest where r: "trace w' = trace w4 @ rest" and q: "list_all ?Q rest"
    by (auto simp: emits_def)
  have "events_since w w' = Getsize p
      # (if backup then [Copy2 p ?bp, Print (BackupAt ?bp)] else [])
      @ [Copy2 p ?t, Print UsingTemp, Run ?cmd 30] @ rest"
    using t3 t4 r by (simp add: events_since_def)
  with q show ?thesis by blast
qed

definition mismatch_world :: world where
  "mismatch_world = example_world [(''image.png'', ''JPEG+gps'')] []"

text \<open>A JPEG named \<open>image.png\<close>, and the stand-in tool.\<close>

definition renamed_env :: env where
  "renamed_env = example_env True example_tool no_fault [''image.png'']"

text \<open>
  C4. The mismatch predicate holds exactly when the format is one of the five supported
  ones and the lower-cased extension of the path is outside that format's canonical
  set. When it holds: the temporary path differs from the original and its extension is
  the canonical one of the format; whenever the choice of the working file returns, the
  working file is the temporary path and holds the content of the original; the choice
  does return, having copied the original to the temporary path, when the original
  exists and the copy is not refused; and where no file-system call is refused, the
  stripper on an existing original measures it, makes the backup if asked, copies it to
  the temporary path and runs the strip command on the temporary path, its only call of
  the tool. A path whose lower-cased extension is canonical for its format is never
  flagged.
\<close>

theorem mismatch_iff_outside_canonical:
  "(check_format_mismatch (os_nt E) p (Some fmt) \<longleftrightarrow>
      fmt \<in> set supported_types \<and>
      lower (snd (splitext (os_nt E) p)) \<notin> set (canonical_extensions fmt))
   \<and> (check_format_mismatch (os_nt E) p (Some fmt) \<longrightarrow>
        snd (splitext (os_nt E) (temp_path E p (Some fmt))) = canonical_extension fmt
        \<and> temp_path E p (Some fmt) \<noteq> p
        \<and> (\<forall>w t wfile w'. choose_working E p (Some fmt) w = (Inr (t, wfile), w') \<longrightarrow>
              t = Some wfile \<and> wfile = temp_path E p (Some fmt)
              \<and> fmlookup (files w') wfile = fmlookup (files w) p)
        \<and> (\<forall>w b. fmlookup (files w) p = Some b
                \<and> fault E (Copy2 p (temp_path E p (Some fmt))) w = None \<longrightarrow>
              (\<exists>w'. choose_working E p (Some fmt) w
                       = (Inr (Some (temp_path E p (Some fmt)), temp_path E p (Some fmt)), w')
                   \<and> files w' = fmupd (temp_path E p (Some fmt)) b (files w)
                   \<and> trace w' = trace w @ [Copy2 p (temp_path E p (Some fmt)), Print UsingTemp]))
        \<and> (\<forall>exiftool backup w b. fmlookup (files w) p = Some b
                \<and> (\<forall>e w0. fault E e w0 = None) \<longrightarrow>
              (\<exists>rest. events_since w
                         (snd (remove_exif_data E exiftool p (Some fmt) backup w))
                    = Getsize p
                      # (if backup then [Copy2 p (backup_path_for E p w),
                                         Print (BackupAt (backup_path_for E p w))] else [])
                      @ [Copy2 p (temp_path E p (Some fmt)), Print UsingTemp,
                         Run (strip_cmd exiftool (temp_path E p (Some fmt))) 30] @ rest
                  \<and> list_all (\<lambda>e. \<not> is_run e) rest)))
   \<and> (lower (snd (splitext (os_nt E) p)) \<in> set (canonical_extensions fmt) \<longrightarrow>
        \<not> check_format_mismatch (os_nt E) p (Some fmt))"
proof -
  let ?t = "temp_path E p (Some fmt)"
  have iff: "check_format_mismatch (os_nt E) p (Some fmt) \<longleftrightarrow>
      fmt \<in> set supported_types \<and>
      lower (snd (splitext (os_nt E) p)) \<notin> set (canonical_extensions fmt)"
    by (simp add: supported_types_def canonical_extensions_def Let_def)
  have never: "lower (snd (splitext (os_nt E) p)) \<in> set (canonical_extensions fmt) \<longrightarrow>
        \<not> check_format_mismatch (os_nt E) p (Some fmt)"
    using iff by blast
  have route: "snd (splitext (os_nt E) ?t) = canonical_extension fmt
        \<and> ?t \<noteq> p
        \<and> (\<forall>w t wfile w'. choose_working E p (Some fmt) w = (Inr (t, wfile), w') \<longrightarrow>
              t = Some wfile \<and> wfile = ?t
              \<and> fmlookup (files w') wfile = fmlookup (files w) p)
        \<and> (\<forall>w b. fmlookup (files w) p = Some b \<and> fault E (Copy2 p ?t) w = None \<longrightarrow>
              (\<exists>w'. choose_working E p (Some fmt) w = (Inr (Some ?t, ?t), w')
                   \<and> files w' = fmupd ?t b (files w)
                   \<and> trace w' = trace w @ [Copy2 p ?t, Print UsingTemp]))
        \<and> (\<forall>exiftool backup w b. fmlookup (files w) p = Some b
                \<and> (\<forall>e w0. fault E e w0 = None) \<longrightarrow>
              (\<exists>rest. events_since w
                         (snd (remove_exif_data E exiftool p (Some fmt) backup w))
                    = Getsize p
                      # (if backup then [Copy2 p (backup_path_for E p w),
                                         Print (BackupAt (backup_path_for E p w))] else [])
                      @ [Copy2 p ?t, Print UsingTemp, Run (strip_cmd exiftool ?t) 30] @ rest
                  \<and> list_all (\<lambda>e. \<not> is_run e) rest))"
    if mm: "check_format_mismatch (os_nt E) p (Some fmt)"
  proof (intro conjI allI impI)
    from mm iff have "fmt \<in> set supported_types" by simp
    then have "get_correct_extension (Some fmt) = canonical_extension fmt"
      by (auto simp: supported_types_def format_map_def canonical_extension_def)
    then show "snd (splitext (os_nt E) ?t) = canonical_extension fmt"
      by (simp add: splitext_temp_path)
  next
    show "?t \<noteq> p" using mm by (rule temp_path_not_original)
  next
    fix w t wfile w'
    assume c: "choose_working E p (Some fmt) w = (Inr (t, wfile), w')"
    from choose_working_mismatch [OF mm c]
    show "t = Some wfile" "wfile = ?t" "fmlookup (files w') wfile = fmlookup (files w) p"
      by blast+
  next
    fix w :: world and b
    assume "fmlookup (files w) p = Some b \<and> fault E (Copy2 p ?t) w = None"
    then show "\<exists>w'. choose_working E p (Some fmt) w = (Inr (Some ?t, ?t), w')
                   \<and> files w' = fmupd ?t b (files w)
                   \<and> trace w' = trace w @ [Copy2 p ?t, Print UsingTemp]"
      using choose_working_total [OF mm] by blast
  next
    fix exiftool backup and w :: world and b
    assume a: "fmlookup (files w) p = Some b \<and> (\<forall>e w0. fault E e w0 = None)"
    then obtain prep w3 where reach: "prepare E p (Some fmt) backup w = (Inr prep, w3)"
      using prepare_total [OF mm, of w b backup] by blast
    have rd: "remove_exif_data E exiftool p (Some fmt) backup w
        = (fst (remove_exif_data E exiftool p (Some fmt) backup w),
           snd (remove_exif_data E exiftool p (Some fmt) backup w))" by simp
    from strip_on_copy [OF mm reach rd]
    show "\<exists>rest. events_since w (snd (remove_exif_data E exiftool p (Some fmt) backup w))
                    = Getsize p
                      # (if backup then [Copy2 p (backup_path_for E p w),
                                         Print (BackupAt (backup_path_for E p w))] else [])
                      @ [Copy2 p ?t, Print UsingTemp, Run (strip_cmd exiftool ?t) 30] @ rest
                  \<and> list_all (\<lambda>e. \<not> is_run e) rest" .
  qed
  from iff route never show ?thesis by blast
qed

theorem mismatch_iff_outside_canonical_witness:
  "check_format_mismatch True ''image.png'' (Some ''JPEG'')
   \<and> temp_path renamed_env ''image.png'' (Some ''JPEG'') = ''C:/tmp/exif_temp_7_9.jpg''
   \<and> snd (splitext True ''C:/tmp/exif_temp_7_9.jpg'') = ''.jpg''
   \<and> fst (choose_working renamed_env ''image.png'' (Some ''JPEG'') mismatch_world)
       = Inr (Some ''C:/tmp/exif_temp_7_9.jpg'', ''C:/tmp/exif_temp_7_9.jpg'')
   \<and> fmlookup (files (snd (choose_working renamed_env ''image.png'' (Some ''JPEG'')
         mismatch_world))) ''C:/tmp/exif_temp_7_9.jpg'' = Some ''JPEG+gps''
   \<and> events_since mismatch_world (snd (remove_exif_data renamed_env ''exiftool.exe''
         ''image.png'' (Some ''JPEG'') False mismatch_world))
       = [Getsize ''image.png'', Copy2 ''image.png'' ''C:/tmp/exif_temp_7_9.jpg'',
          Print UsingTemp, Run (strip_cmd ''exiftool.exe'' ''C:/tmp/exif_temp_7_9.jpg'') 30,
          Copy2 ''C:/tmp/exif_temp_7_9.jpg'' ''image.png'', Remove ''C:/tmp/exif_temp_7_9.jpg'',
          Getsize ''image.png'', Print (Success (- 4))]
   \<and> fmlookup (files (snd (remove_exif_data renamed_env ''exiftool.exe''
         ''image.png'' (Some ''JPEG'') False mismatch_world))) ''image.png'' = Some ''JPEG''
   \<and> lower (snd (splitext True ''photo.JPG'')) \<in> set (canonical_extensions ''JPEG'')
   \<and> \<not> check_format_mismatch True ''photo.JPG'' (Some ''JPEG'')"
proof -
  let ?E = "renamed_env"
  let ?w = "mismatch_world"
  let ?t = "''C:/tmp/exif_temp_7_9.jpg''"
  let ?r = "remove_exif_data ?E ''exiftool.exe'' ''image.png'' (Some ''JPEG'') False ?w"
  have nt: "os_nt ?E = True" by (simp add: renamed_env_def example_env_def)
  have a: "check_format_mismatch True ''image.png'' (Some ''JPEG'')" by code_simp
  have b: "lower (snd (splitext True ''photo.JPG'')) \<in> set (canonical_extensions ''JPEG'')"
    by code_simp
  have c: "canonical_extension ''JPEG'' = ''.jpg''" by code_simp
  have t: "temp_path ?E ''image.png'' (Some ''JPEG'') = ?t" by code_simp
  have l: "fmlookup (files ?w) ''image.png'' = Some ''JPEG+gps''" by code_simp
  have nf: "\<forall>e w0. fault ?E e w0 = None"
    by (simp add: renamed_env_def example_env_def no_fault_def)
  have ev: "events_since ?w (snd ?r)
       = [Getsize ''image.png'', Copy2 ''image.png'' ?t,
          Print UsingTemp, Run (strip_cmd ''exiftool.exe'' ?t) 30,
          Copy2 ?t ''image.png'', Remove ?t, Getsize ''image.png'', Print (Success (- 4))]"
    by code_simp
  have fin: "fmlookup (files (snd ?r)) ''image.png'' = Some ''JPEG''" by code_simp
  note inst = mismatch_iff_outside_canonical [of ?E "''image.png''" "''JPEG''", unfolded nt t c]
  from inst a have ext: "snd (splitext True ?t) = ''.jpg''" by blast
  from inst a l nf obtain w' where
    cw: "choose_working ?E ''image.png'' (Some ''JPEG'') ?w = (Inr (Some ?t, ?t), w')"
    and fw: "files w' = fmupd ?t ''JPEG+gps'' (files ?w)"
    by blast
  from mismatch_iff_outside_canonical [of ?E "''photo.JPG''" "''JPEG''"] b
  have n: "\<not> check_format_mismatch True ''photo.JPG'' (Some ''JPEG'')"
    unfolding nt by blast
  from cw fw have "fst (choose_working ?E ''image.png'' (Some ''JPEG'') ?w) = Inr (Some ?t, ?t)"
    "fmlookup (files (snd (choose_working ?E ''image.png'' (Some ''JPEG'') ?w))) ?t
       = Some ''JPEG+gps''"
    by simp_all
  with a t ext ev fin b n show ?thesis by blast
qed

text \<open>
  C5. A file whose extension mismatches its format is stripped through the temporary
  copy. If, in the world the preparation leaves, the tool called with the strip command
  on the temporary path exits non-zero, the stripper reports failure and its events are
  exactly: the size measurement, the backup copy and its report when a backup was
  requested, the temporary copy and its notice, the strip on the temporary path, the
  failure message, and possibly the removal of the temporary file. Nothing is copied
  onto the original path and it is not removed; under the frame assumption on the tool
  the original keeps its content, and a requested backup holds that content.
\<close>

theorem nonzero_exit_leaves_original:
  assumes mm: "check_format_mismatch (os_nt E) p fmt"
    and reach: "prepare E p fmt backup w = (Inr prep, w3)"
    and call: "fst (tool E (strip_cmd exiftool (temp_path E p fmt)) 30 w3) = Inr c"
    and nz: "returncode c \<noteq> 0"
    and rd: "remove_exif_data E exiftool p fmt backup w = (ok, w')"
  shows "\<not> ok
    \<and> (\<exists>m tail. events_since w w'
          = Getsize p
            # (if backup then [Copy2 p (backup_path_for E p w),
                               Print (BackupAt (backup_path_for E p w))] else [])
            @ [Copy2 p (temp_path E p fmt), Print UsingTemp,
               Run (strip_cmd exiftool (temp_path E p fmt)) 30, Print m] @ tail
        \<and> (tail = [] \<or> tail = [Remove (temp_path E p fmt)]))
    \<and> (\<forall>src. Copy2 src p \<notin> set (events_since w w'))
    \<and> Remove p \<notin> set (events_since w w')
    \<and> (tool_frame E \<longrightarrow>
          fmlookup (files w') p = fmlookup (files w) p
          \<and> (backup \<longrightarrow> fmlookup (files w') (backup_path_for E p w) = fmlookup (files w) p))"
proof -
  let ?t = "temp_path E p fmt"
  let ?bp = "backup_path_for E p w"
  let ?cmd = "strip_cmd exiftool ?t"
  have tp: "?t \<noteq> p" using mm by (rule temp_path_not_original)
  have tb: "?t \<noteq> ?bp" using mm by (rule temp_path_not_backup)
  from prepare_ok [OF mm reach] obtain sz b where prep: "prep = (sz, Some ?t, ?t)"
    and t3: "trace w3 = trace w @ Getsize p
       # (if backup then [Copy2 p ?bp, Print (BackupAt ?bp)] else [])
       @ [Copy2 p ?t, Print UsingTemp]"
    and b: "fmlookup (files w) p = Some b"
    and f3: "files w3 = fmupd ?t b (if backup then fmupd ?bp b (files w) else files w)"
    by blast
  from b have "exists w p" by (simp add: exists_def)
  then have pb: "p \<noteq> ?bp" using backup_path_for_fresh [of w E p] by auto
  obtain rb wb where body: "remove_exif_body E exiftool p fmt backup w = (rb, wb)" by force
  from body reach prep have rest3:
    "io_bind (subprocess_run E ?cmd 30) (\<lambda>result.
     io_bind (after_tool E p sz (Some ?t) result) (\<lambda>success.
     io_bind (cleanup E (Some ?t)) (\<lambda>_. io_return success))) w3 = (rb, wb)"
    by (simp add: body_prepare io_bind_def)
  obtain r4 w4 where run: "subprocess_run E ?cmd 30 w3 = (r4, w4)" by force
  note run4 = run_step [OF run]
  with call have r4: "r4 = Inr c" by simp
  from rest3 run r4 have rest4:
    "io_bind (after_tool E p sz (Some ?t) c) (\<lambda>success.
     io_bind (cleanup E (Some ?t)) (\<lambda>_. io_return success)) w4 = (rb, wb)"
    by (simp add: io_bind_def)
  obtain r5 w5 where a: "after_tool E p sz (Some ?t) c w4 = (r5, w5)" by force
  from after_tool_failed [OF nz a] obtain msg where r5: "r5 = Inr False"
    and t5: "trace w5 = trace w4 @ [Print msg]" and f5: "files w5 = files w4" by blast
  from rest4 a r5 have rest5:
    "io_bind (cleanup E (Some ?t)) (\<lambda>_. io_return False) w5 = (rb, wb)"
    by (simp add: io_bind_def)
  obtain r6 w6 where cl: "cleanup E (Some ?t) w5 = (r6, w6)" by force
  note c6 = cleanup_step [OF cl]
  from rest5 cl c6 have rb: "rb = Inr False" and wb: "wb = w6"
    by (simp_all add: io_bind_def io_return_def)
  from rd body rb have ok: "\<not> ok" and w': "w' = wb"
    by (simp_all add: remove_exif_data_def)
  obtain tail where t6: "trace w6 = trace w5 @ tail" and tl: "tail = [] \<or> tail = [Remove ?t]"
    using c6 by auto
  have ev: "events_since w w' = Getsize p
      # (if backup then [Copy2 p ?bp, Print (BackupAt ?bp)] else [])
      @ [Copy2 p ?t, Print UsingTemp, Run ?cmd 30, Print msg] @ tail"
    using t3 run4 t5 t6 by (simp add: events_since_def w' wb)
  have nocopy: "\<forall>src. Copy2 src p \<notin> set (events_since w w')"
    using tl tp pb unfolding ev by auto
  have norm: "Remove p \<notin> set (events_since w w')"
    using tl tp unfolding ev by auto
  have frame: "tool_frame E \<longrightarrow>
          fmlookup (files w') p = fmlookup (files w) p
          \<and> (backup \<longrightarrow> fmlookup (files w') (backup_path_for E p w) = fmlookup (files w) p)"
  proof
    assume tf: "tool_frame E"
    have k4: "fmlookup (files w4) q = fmlookup (files w3) q" if "q \<noteq> ?t" for q
      using run4 tool_frame_strip [OF tf that] by simp
    have k6: "fmlookup (files w6) q = fmlookup (files w5) q" if "q \<noteq> ?t" for q
      using c6 that by auto
    have k: "fmlookup (files w') q
        = fmlookup (if backup then fmupd ?bp b (files w) else files w) q" if "q \<noteq> ?t" for q
      using k4 [OF that] k6 [OF that] f5 f3 that by (simp add: w' wb)
    have 1: "fmlookup (files w') p = fmlookup (files w) p"
      using k [of p] tp pb b by simp
    have 2: "backup \<longrightarrow> fmlookup (files w') ?bp = fmlookup (files w) p"
      using k [of ?bp] tb b by simp
    from 1 2 show "fmlookup (files w') p = fmlookup (files w) p
          \<and> (backup \<longrightarrow> fmlookup (files w') (backup_path_for E p w) = fmlookup (files w) p)"
      by (rule conjI)
  qed
  have ex: "\<exists>m tail. events_since w w'
          = Getsize p
            # (if backup then [Copy2 p (backup_path_for E p w),
                               Print (BackupAt (backup_path_for E p w))] else [])
            @ [Copy2 p (temp_path E p fmt), Print UsingTemp,
               Run (strip_cmd exiftool (temp_path E p fmt)) 30, Print m] @ tail
        \<and> (tail = [] \<or> tail = [Remove (temp_path E p fmt)])"
    by (intro exI [of _ msg] exI [of _ tail] conjI ev tl)
  show ?thesis by (intro conjI) (rule ok ex nocopy norm frame)+
qed

text \<open>
  A tool that refuses to rewrite a damaged picture and answers like the stand-in
  otherwise, and a directory with a damaged and a sound JPEG, both named \<open>.png\<close>.
\<close>

definition picky_tool ::
  "string list \<Rightarrow> nat \<Rightarrow> world \<Rightarrow> (exn + completed) \<times> (path, bytes) fmap" where
  "picky_tool argv timeout w =
     (if length argv = 7 \<and> fmlookup (files w) (last argv) = Some ''JPEG+damaged''
      then (Inr \<lparr>returncode = 1, stdout = [], stderr = ''Error: Not a valid JPG''\<rparr>, files w)
      else example_tool argv timeout w)"

definition picky_env :: env where
  "picky_env = example_env True picky_tool no_fault [''image.png'', ''sound.png'']"

definition damaged_world :: world where
  "damaged_world =
     example_world [(''image.png'', ''JPEG+damaged''), (''sound.png'', ''JPEG+gps'')] []"

lemma tool_frame_picky: "tool_frame (example_env nt picky_tool fl names)"
  by (simp add: tool_frame_def example_env_def picky_tool_def example_tool_frame)

theorem nonzero_exit_leaves_original_witness:
  "check_format_mismatch True ''image.png'' (Some ''JPEG'')
   \<and> \<not> isl (fst (prepare picky_env ''image.png'' (Some ''JPEG'') True damaged_world))
   \<and> (case fst (tool picky_env
          (strip_cmd ''exiftool.exe'' (temp_path picky_env ''image.png'' (Some ''JPEG''))) 30
          (snd (prepare picky_env ''image.png'' (Some ''JPEG'') True damaged_world)))
       of Inl e \<Rightarrow> False | Inr c \<Rightarrow> returncode c \<noteq> 0)
   \<and> \<not> fst (remove_exif_data picky_env ''exiftool.exe'' ''image.png'' (Some ''JPEG'') True
         damaged_world)
   \<and> fmlookup (files (snd (remove_exif_data picky_env ''exiftool.exe'' ''image.png''
         (Some ''JPEG'') True damaged_world))) ''image.png'' = Some ''JPEG+damaged''
   \<and> fmlookup (files (snd (remove_exif_data picky_env ''exiftool.exe'' ''image.png''
         (Some ''JPEG'') True damaged_world)))
         (backup_path_for picky_env ''image.png'' damaged_world) = Some ''JPEG+damaged''
   \<and> fst (remove_exif_data picky_env ''exiftool.exe'' ''sound.png'' (Some ''JPEG'') True
         damaged_world)"
proof -
  let ?r = "remove_exif_data picky_env ''exiftool.exe'' ''image.png'' (Some ''JPEG'') True
      damaged_world"
  let ?p = "prepare picky_env ''image.png'' (Some ''JPEG'') True damaged_world"
  let ?cmd = "strip_cmd ''exiftool.exe'' (temp_path picky_env ''image.png'' (Some ''JPEG''))"
  have nt: "os_nt picky_env = True" by (simp add: picky_env_def example_env_def)
  have mm: "check_format_mismatch (os_nt picky_env) ''image.png'' (Some ''JPEG'')"
    by code_simp
  have pr: "\<not> isl (fst ?p)" by code_simp
  then obtain prep where reach: "?p = (Inr prep, snd ?p)"
    by (cases "fst ?p") (auto simp: prod_eq_iff)
  have cl: "case fst (tool picky_env ?cmd 30 (snd ?p)) of Inl e \<Rightarrow> False
      | Inr c \<Rightarrow> returncode c \<noteq> 0"
    by code_simp
  then obtain c where call: "fst (tool picky_env ?cmd 30 (snd ?p)) = Inr c"
    and nz: "returncode c \<noteq> 0"
    by (cases "fst (tool picky_env ?cmd 30 (snd ?p))") auto
  have rd: "?r = (fst ?r, snd ?r)" by simp
  have tf: "tool_frame picky_env" unfolding picky_env_def by (rule tool_frame_picky)
  have l: "fmlookup (files damaged_world) ''image.png'' = Some ''JPEG+damaged''" by code_simp
  have other: "fst (remove_exif_data picky_env ''exiftool.exe'' ''sound.png'' (Some ''JPEG'') True
         damaged_world)"
    by code_simp
  from nonzero_exit_leaves_original [OF mm reach call nz rd] tf l
  have "\<not> fst ?r" "fmlookup (files (snd ?r)) ''image.png'' = Some ''JPEG+damaged''"
    "fmlookup (files (snd ?r)) (backup_path_for picky_env ''image.png'' damaged_world)
       = Some ''JPEG+damaged''"
    by simp_all
  with mm pr cl other show ?thesis unfolding nt by blast
qed

text \<open>
  C2 fails on the code. The removal of the temporary file stands at the end of the
  \<open>try\<close> block, not in a \<open>finally\<close> clause. If, in the world the preparation leaves, the
  tool called with the strip command on the temporary path raises (a timeout or any
  other exception), the stripper reports failure after exactly these events: the size
  measurement, the backup when requested, the temporary copy and its notice, the call,
  and the message of the \<open>except\<close> clause. No removal of the temporary file is attempted,
  and the files are left as the tool left them.
\<close>

theorem raising_strip_skips_cleanup:
  assumes mm: "check_format_mismatch (os_nt E) p fmt"
    and reach: "prepare E p fmt backup w = (Inr prep, w3)"
    and call: "fst (tool E (strip_cmd exiftool (temp_path E p fmt)) 30 w3) = Inl e"
    and rd: "remove_exif_data E exiftool p fmt backup w = (ok, w')"
  shows "\<not> ok
    \<and> events_since w w'
          = Getsize p
            # (if backup then [Copy2 p (backup_path_for E p w),
                               Print (BackupAt (backup_path_for E p w))] else [])
            @ [Copy2 p (temp_path E p fmt), Print UsingTemp,
               Run (strip_cmd exiftool (temp_path E p fmt)) 30,
               Print (case e of TimeoutExpired s \<Rightarrow> TimedOut | Exception s \<Rightarrow> ErrorMsg s)]
    \<and> Remove (temp_path E p fmt) \<notin> set (events_since w w')
    \<and> files w' = snd (tool E (strip_cmd exiftool (temp_path E p fmt)) 30 w3)"
proof -
  let ?t = "temp_path E p fmt"
  let ?bp = "backup_path_for E p w"
  let ?cmd = "strip_cmd exiftool ?t"
  let ?m = "case e of TimeoutExpired s \<Rightarrow> TimedOut | Exception s \<Rightarrow> ErrorMsg s"
  from prepare_ok [OF mm reach] obtain sz b where prep: "prep = (sz, Some ?t, ?t)"
    and t3: "trace w3 = trace w @ Getsize p
       # (if backup then [Copy2 p ?bp, Print (BackupAt ?bp)] else [])
       @ [Copy2 p ?t, Print UsingTemp]"
    by blast
  obtain rb wb where body: "remove_exif_body E exiftool p fmt backup w = (rb, wb)" by force
  from body reach prep have rest:
    "io_bind (subprocess_run E ?cmd 30) (\<lambda>result.
     io_bind (after_tool E p sz (Some ?t) result) (\<lambda>success.
     io_bind (cleanup E (Some ?t)) (\<lambda>_. io_return success))) w3 = (rb, wb)"
    by (simp add: body_prepare io_bind_def)
  obtain r4 w4 where run: "subprocess_run E ?cmd 30 w3 = (r4, w4)" by force
  note run4 = run_step [OF run]
  with call have r4: "r4 = Inl e" by simp
  from rest run r4 have rb: "rb = Inl e" and wb: "wb = w4" by (simp_all add: io_bind_def)
  from rd body rb wb have ok: "\<not> ok" and w': "w' = log (Print ?m) w4"
    by (cases e; simp add: remove_exif_data_def)+
  have ev: "events_since w w' = Getsize p
      # (if backup then [Copy2 p ?bp, Print (BackupAt ?bp)] else [])
      @ [Copy2 p ?t, Print UsingTemp, Run ?cmd 30, Print ?m]"
    using t3 run4 by (simp add: events_since_def w' log_def)
  have norm: "Remove ?t \<notin> set (events_since w w')"
    unfolding ev by auto
  have fl: "files w' = snd (tool E ?cmd 30 w3)" using run4 by (simp add: w' log_def)
  show ?thesis by (intro conjI) (rule ok ev norm fl)+
qed

text \<open>A tool that times out on every strip command and answers like the stand-in otherwise.\<close>

definition slow_tool ::
  "string list \<Rightarrow> nat \<Rightarrow> world \<Rightarrow> (exn + completed) \<times> (path, bytes) fmap" where
  "slow_tool argv timeout w =
     (if length argv = 7 then (Inl (TimeoutExpired ''timed out after 30 seconds''), files w)
      else example_tool argv timeout w)"

definition slow_env :: env where
  "slow_env = example_env True slow_tool no_fault [''image.png'']"

theorem raising_strip_skips_cleanup_witness:
  "check_format_mismatch True ''image.png'' (Some ''JPEG'')
   \<and> temp_path slow_env ''image.png'' (Some ''JPEG'') = ''C:/tmp/exif_temp_7_9.jpg''
   \<and> \<not> isl (fst (prepare slow_env ''image.png'' (Some ''JPEG'') False mismatch_world))
   \<and> fst (tool slow_env (strip_cmd ''exiftool.exe'' ''C:/tmp/exif_temp_7_9.jpg'') 30
          (snd (prepare slow_env ''image.png'' (Some ''JPEG'') False mismatch_world)))
       = Inl (TimeoutExpired ''timed out after 30 seconds'')
   \<and> \<not> fst (remove_exif_data slow_env ''exiftool.exe'' ''image.png'' (Some ''JPEG'') False
         mismatch_world)
   \<and> events_since mismatch_world
        (snd (remove_exif_data slow_env ''exiftool.exe'' ''image.png'' (Some ''JPEG'') False
           mismatch_world))
       = [Getsize ''image.png'', Copy2 ''image.png'' ''C:/tmp/exif_temp_7_9.jpg'',
          Print UsingTemp, Run (strip_cmd ''exiftool.exe'' ''C:/tmp/exif_temp_7_9.jpg'') 30,
          Print TimedOut]
   \<and> exists (snd (remove_exif_data slow_env ''exiftool.exe'' ''image.png'' (Some ''JPEG'') False
         mismatch_world)) ''C:/tmp/exif_temp_7_9.jpg''"
proof -
  let ?r = "remove_exif_data slow_env ''exiftool.exe'' ''image.png'' (Some ''JPEG'') False
      mismatch_world"
  let ?p = "prepare slow_env ''image.png'' (Some ''JPEG'') False mismatch_world"
  let ?t = "''C:/tmp/exif_temp_7_9.jpg''"
  have nt: "os_nt slow_env = True" by (simp add: slow_env_def example_env_def)
  have t: "temp_path slow_env ''image.png'' (Some ''JPEG'') = ?t" by code_simp
  have mm: "check_format_mismatch (os_nt slow_env) ''image.png'' (Some ''JPEG'')"
    by code_simp
  have pr: "\<not> isl (fst ?p)" by code_simp
  then obtain prep where reach: "?p = (Inr prep, snd ?p)"
    by (cases "fst ?p") (auto simp: prod_eq_iff)
  have call: "fst (tool slow_env (strip_cmd ''exiftool.exe''
        (temp_path slow_env ''image.png'' (Some ''JPEG''))) 30 (snd ?p))
      = Inl (TimeoutExpired ''timed out after 30 seconds'')"
    by (simp add: slow_env_def example_env_def slow_tool_def strip_cmd_def)
  have rd: "?r = (fst ?r, snd ?r)" by simp
  have left: "exists (snd ?r) ?t" by code_simp
  have nb: "backup_path_for slow_env ''image.png'' mismatch_world \<noteq> []"
    using backup_path_shape [of slow_env "''image.png''" mismatch_world] by auto
  from raising_strip_skips_cleanup [OF mm reach call rd]
  have "\<not> fst ?r"
    "events_since mismatch_world (snd ?r)
       = [Getsize ''image.png'', Copy2 ''image.png'' ?t,
          Print UsingTemp, Run (strip_cmd ''exiftool.exe'' ?t) 30, Print TimedOut]"
    unfolding t by simp_all
  with mm t pr call left show ?thesis unfolding nt t by blast
qed

section \<open>Files without metadata (C9)\<close>

text \<open>
  The events by which the program handles a file: the strip command on it, a size
  measurement of it, a copy from it or onto it, its removal.
\<close>

fun touches :: "path \<Rightarrow> event \<Rightarrow> bool" where
  "touches f (Run argv timeout) = (\<exists>exiftool. argv = strip_cmd exiftool f)"
| "touches f (Getsize p) = (p = f)"
| "touches f (Copy2 src dst) = (src = f \<or> dst = f)"
| "touches f (Remove p) = (p = f)"
| "touches f e = False"

text \<open>
  A computation is safe for a file with content \<open>b\<close> when it ends with the file still
  holding \<open>b\<close> and none of its events handles the file.
\<close>

definition safe :: "path \<Rightarrow> bytes \<Rightarrow> world \<Rightarrow> world \<Rightarrow> bool" where
  "safe f b w w' = (fmlookup (files w') f = Some b \<and> emits (\<lambda>e. \<not> touches f e) w w')"








lemma safe_chdir: "chdir E d w = (r, w') \<Longrightarrow> fmlookup (files w) f = Some b \<Longrightarrow> safe f b w w'"
  by (auto simp: chdir_def Let_def safe_def emits_def log_def split: option.splits)













































section \<open>The batch loop (C1)\<close>

text \<open>
  C1 fails on the code. The loop of \<open>run\<close> measures each file before and after the call
  of the stripper, outside the stripper's \<open>try\<close> block. When the first measurement of a
  file raises, the loop raises the same error right after announcing the file and
  measuring it: the stripper is not called, and neither this file nor any file after it
  is processed.
\<close>

theorem size_failure_aborts_batch:
  assumes "getsize E file (log (Print (Processing file)) w) = (Inl e, w1)"
  shows "process_files E exiftool backup fi (file # rest) counters w = (Inl e, w1)
    \<and> events_since w w1 = [Print (Processing file), Getsize file]"
proof -
  obtain processed failed total_size_change
    where c: "counters = (processed, failed, total_size_change)"
    by (cases counters) auto
  from assms have "process_files E exiftool backup fi (file # rest) counters w = (Inl e, w1)"
    by (simp add: c)
  moreover from getsize_step [OF assms]
  have "events_since w w1 = [Print (Processing file), Getsize file]"
    by (simp add: events_since_def log_def)
  ultimately show ?thesis by blast
qed

text \<open>
  Two pictures with metadata; the first one can no longer be measured when the
  processing loop reaches it (deleted while the program waited at its prompts).
\<close>

definition vanished_fault :: "event \<Rightarrow> world \<Rightarrow> exn option" where
  "vanished_fault e w =
     (if e = Getsize ''a.jpg'' then Some (Exception ''FileNotFoundError'') else None)"

definition vanished_env :: env where
  "vanished_env = example_env True example_tool vanished_fault [''a.jpg'', ''b.jpg'']"

definition vanished_world :: world where
  "vanished_world =
     example_world [(''a.jpg'', ''JPEG+gps''), (''b.jpg'', ''JPEG+gps'')] [Yes, No, Other]"

theorem size_failure_aborts_batch_witness:
  "process_files vanished_env ''exiftool.exe'' False Map.empty [''a.jpg'', ''b.jpg'']
       (0, 0, 0) vanished_world
     = (Inl (Exception ''FileNotFoundError''),
        log (Getsize ''a.jpg'') (log (Print (Processing ''a.jpg'')) vanished_world))
   \<and> Print (ToProcess [''a.jpg'', ''b.jpg''])
        \<in> set (events_since vanished_world (snd (run vanished_env vanished_world)))
   \<and> fst (run vanished_env vanished_world) = Inl (Exception ''FileNotFoundError'')
   \<and> filter (\<lambda>(argv, timeout). timeout = 30)
        (invocations (events_since vanished_world (snd (run vanished_env vanished_world)))) = []
   \<and> fmlookup (files (snd (run vanished_env vanished_world))) ''b.jpg'' = Some ''JPEG+gps''"
proof -
  let ?w = "log (Print (Processing ''a.jpg'')) vanished_world"
  have "fault vanished_env (Getsize ''a.jpg'') ?w = Some (Exception ''FileNotFoundError'')"
    by (simp add: vanished_env_def example_env_def vanished_fault_def)
  then have g: "getsize vanished_env ''a.jpg'' ?w
      = (Inl (Exception ''FileNotFoundError''), log (Getsize ''a.jpg'') ?w)"
    by (simp add: getsize_def Let_def)
  from size_failure_aborts_batch [OF g, where exiftool = "''exiftool.exe''" and backup = False
      and fi = Map.empty and rest = "[''b.jpg'']" and counters = "(0, 0, 0)"]
  have 1: "process_files vanished_env ''exiftool.exe'' False Map.empty [''a.jpg'', ''b.jpg'']
       (0, 0, 0) vanished_world
     = (Inl (Exception ''FileNotFoundError''), log (Getsize ''a.jpg'') ?w)"
    by (rule conjunct1)
  have 2: "Print (ToProcess [''a.jpg'', ''b.jpg''])
        \<in> set (events_since vanished_world (snd (run vanished_env vanished_world)))"
    by code_simp
  have 3: "fst (run vanished_env vanished_world) = Inl (Exception ''FileNotFoundError'')"
    by code_simp
  have 4: "filter (\<lambda>(argv, timeout). timeout = 30)
        (invocations (events_since vanished_world (snd (run vanished_env vanished_world)))) = []"
    by code_simp
  have 5: "fmlookup (files (snd (run vanished_env vanished_world))) ''b.jpg'' = Some ''JPEG+gps''"
    by code_simp
  from 1 2 3 4 5 show ?thesis by blast
qed

end
